theory Spec2Isabelle
  imports Main "HOL-Library.Word" "HOL-Library.Sublist" "HOL-Library.AList"
    "HOL-Library.Product_Lexorder"
begin

chapter \<open>ReBenchDB: ingestion core of \<^verbatim>\<open>src/db.ts\<close>\<close>

text \<open>
  A shallow embedding of the parts of \<^verbatim>\<open>src/db.ts\<close> that record benchmark data:
  the batch-insert generator, the commit-message filter, the cache-validity token, the
  metadata interning cache, the measurement recorder and the timeline conversion.
  The first part holds the embedding, the second part the properties proved about it.
\<close>

section \<open>Embedding\<close>

subsection \<open>Errors\<close>

text \<open>
  Exceptions are values: a database error carries its SQLSTATE code, \<open>TypeError\<close> is what
  JavaScript raises on a property access on \<^verbatim>\<open>undefined\<close>, \<open>AssertionError\<close> a failed
  \<^verbatim>\<open>assert\<close>, \<open>UserError\<close> an \<^verbatim>\<open>Error\<close> thrown by the code itself.
\<close>

datatype error =
    DbError string
  | TypeError
  | AssertionError
  | UserError string

definition bindE :: "error + 'a \<Rightarrow> ('a \<Rightarrow> error + 'b) \<Rightarrow> error + 'b" where
  "bindE m f = (case m of Inl e \<Rightarrow> Inl e | Inr v \<Rightarrow> f v)"

subsection \<open>Batch-insert generator (\<^verbatim>\<open>Database.generateBatchInsert\<close>)\<close>

text \<open>
  JavaScript's conversion of a non-negative integer to its decimal string, as used by
  \<^verbatim>\<open>Array.prototype.join\<close> and string concatenation. The loop counters of
  \<^verbatim>\<open>generateBatchInsert\<close> are non-negative integers, modelled as \<^typ>\<open>nat\<close>.
\<close>

definition digitChar :: "nat \<Rightarrow> char" where
  "digitChar d = char_of (48 + d)"

fun numToString :: "nat \<Rightarrow> string" where
  "numToString n =
     (if n < 10 then [digitChar n]
      else numToString (n div 10) @ [digitChar (n mod 10)])"

text \<open>\<^verbatim>\<open>xs.join(sep)\<close> on an array of strings.\<close>

fun join :: "string list \<Rightarrow> string \<Rightarrow> string" where
  "join [] sep = []"
| "join [x] sep = x"
| "join (x # y # ys) sep = x @ sep @ join (y # ys) sep"

text \<open>The inner loop \<^verbatim>\<open>for (let j = 1; j <= sizeTuples; j += 1) tupleNums.push(i * sizeTuples + j)\<close>.\<close>

function tupleNumsLoop :: "nat \<Rightarrow> nat \<Rightarrow> nat \<Rightarrow> nat list \<Rightarrow> nat list" where
  "tupleNumsLoop i sizeTuples j tupleNums =
     (if j \<le> sizeTuples
      then tupleNumsLoop i sizeTuples (j + 1) (tupleNums @ [i * sizeTuples + j])
      else tupleNums)"
  by pat_completeness auto
termination
  by (relation "measure (\<lambda>(i, sizeTuples, j, tupleNums). Suc sizeTuples - j)") auto

text \<open>The outer loop \<^verbatim>\<open>for (let i = 0; i < numTuples; i += 1)\<close>, pushing one group per round.\<close>

function numsLoop :: "nat \<Rightarrow> nat \<Rightarrow> nat \<Rightarrow> string list \<Rightarrow> string list" where
  "numsLoop numTuples sizeTuples i nums =
     (if i < numTuples
      then numsLoop numTuples sizeTuples (i + 1)
             (nums @ [''($'' @ join (map numToString (tupleNumsLoop i sizeTuples 1 [])) '', $''
                      @ '')''])
      else nums)"
  by pat_completeness auto
termination
  by (relation "measure (\<lambda>(numTuples, sizeTuples, i, nums). numTuples - i)") auto

declare numToString.simps [simp del] tupleNumsLoop.simps [simp del] numsLoop.simps [simp del]

definition generateBatchInsert :: "nat \<Rightarrow> nat \<Rightarrow> string" where
  "generateBatchInsert numTuples sizeTuples =
     join (numsLoop numTuples sizeTuples 0 []) [CHR '','', CHR 0x0A]"

text \<open>\<^verbatim>\<open>Database.batchN\<close> and the statement text built by the constructor.\<close>

definition batchN :: nat where
  "batchN = 50"

definition insertMeasurementBatchedN :: string where
  "insertMeasurementBatchedN =
     ''INSERT INTO Measurement'' @ [CHR 0x0A] @
     ''         (runId, trialId, invocation, iteration, criterion, value)'' @ [CHR 0x0A] @
     ''       VALUES '' @ generateBatchInsert batchN 6 @ [CHR 0x0A] @
     ''       ON CONFLICT DO NOTHING''"

text \<open>
  Reading a statement text back: the numbers of its placeholders, in the order in which
  they occur. A placeholder is a dollar sign followed by decimal digits.
\<close>

definition isDigit :: "char \<Rightarrow> bool" where
  "isDigit c = (48 \<le> (of_char c :: nat) \<and> (of_char c :: nat) \<le> 57)"

definition parseNat :: "string \<Rightarrow> nat" where
  "parseNat ds = foldl (\<lambda>a c. 10 * a + (of_char c - 48)) 0 ds"

function placeholders :: "string \<Rightarrow> nat list" where
  "placeholders [] = []"
| "placeholders (c # cs) =
     (if c = CHR ''$''
      then parseNat (takeWhile isDigit cs) # placeholders (dropWhile isDigit cs)
      else placeholders cs)"
  by pat_completeness auto
termination
  by (relation "measure length") (auto simp: less_Suc_eq_le length_dropWhile_le)

text \<open>One parenthesised group of placeholders, as the claim describes it.\<close>

definition tupleGroup :: "nat \<Rightarrow> nat \<Rightarrow> string" where
  "tupleGroup s i =
     ''($'' @ join (map numToString [i * s + 1 ..< (i + 1) * s + 1]) '', $'' @ '')''"

definition stops :: "string \<Rightarrow> bool" where
  "stops r = (case r of [] \<Rightarrow> True | c # _ \<Rightarrow> \<not> isDigit c)"

subsection \<open>Cache-validity token (\<^verbatim>\<open>TimedCacheValidity\<close>)\<close>

text \<open>
  Tokens are objects with identity: \<^verbatim>\<open>invalidateAndNew\<close> may return \<^verbatim>\<open>this\<close>. The
  store holds every token ever constructed, addressed by its position, and the one-shot
  timers that \<^verbatim>\<open>setTimeout\<close> has registered and that have not fired yet, each with the
  token its callback invalidates and its delay in milliseconds.
\<close>

record token =
  valid :: bool
  scheduledInvalidation :: bool
  invalidationDelay :: int

record store =
  tokens :: "token list"
  timers :: "(nat \<times> int) list"












subsection \<open>Commit-message filter (\<^verbatim>\<open>filterCommitMessage\<close>)\<close>

text \<open>
  A JavaScript string is a sequence of UTF-16 code units. \<open>str\<close> embeds an ASCII literal.
\<close>

type_synonym jsstring = "16 word list"

definition str :: "string \<Rightarrow> jsstring" where
  "str s = map of_char s"

text \<open>
  \<^verbatim>\<open>String.prototype.replaceAll\<close> with a string pattern: matches are found from left to
  right and do not overlap; an empty pattern matches between all code units.
\<close>

function replaceAll :: "jsstring \<Rightarrow> jsstring \<Rightarrow> jsstring \<Rightarrow> jsstring" where
  "replaceAll pat rep s =
     (if pat = [] then rep @ concat (map (\<lambda>c. c # rep) s)
      else if prefix pat s then rep @ replaceAll pat rep (drop (length pat) s)
      else (case s of [] \<Rightarrow> [] | c # cs \<Rightarrow> c # replaceAll pat rep cs))"
  by pat_completeness auto
termination
  by (relation "measure (\<lambda>(pat, rep, s). length s)") (auto simp: prefix_def)

text \<open>
  The replacement of the regular expression \<^verbatim>\<open>/Signed-off-by:.*/g\<close> by the empty string:
  every match starts at an occurrence of the literal and extends over all following code
  units that are not line terminators (the dot of a regular expression without the
  \<^verbatim>\<open>s\<close> flag); the search resumes after the match.
\<close>

definition isLineTerminator :: "16 word \<Rightarrow> bool" where
  "isLineTerminator c = (c = 0x0A \<or> c = 0x0D \<or> c = 0x2028 \<or> c = 0x2029)"

definition signedOffBy :: jsstring where
  "signedOffBy = str ''Signed-off-by:''"

function removeSignedOffBy :: "jsstring \<Rightarrow> jsstring" where
  "removeSignedOffBy s =
     (if prefix signedOffBy s
      then removeSignedOffBy
             (dropWhile (\<lambda>c. \<not> isLineTerminator c) (drop (length signedOffBy) s))
      else (case s of [] \<Rightarrow> [] | c # cs \<Rightarrow> c # removeSignedOffBy cs))"
  by pat_completeness auto
termination
proof (relation "measure length", goal_cases)
  case 1
  show ?case by simp
next
  case (2 s)
  have "length (dropWhile (\<lambda>c. \<not> isLineTerminator c) (drop (length signedOffBy) s))
        \<le> length (drop (length signedOffBy) s)"
    by (rule length_dropWhile_le)
  moreover have "length (drop (length signedOffBy) s) < length s"
    using 2 by (auto simp: prefix_def signedOffBy_def str_def)
  ultimately show ?case by simp
next
  case (3 s c cs)
  then show ?case by simp
qed

text \<open>\<^verbatim>\<open>String.prototype.trim\<close> removes white space and line terminators at both ends.\<close>

definition isWhiteSpace :: "16 word \<Rightarrow> bool" where
  "isWhiteSpace c =
     (c = 0x09 \<or> c = 0x0B \<or> c = 0x0C \<or> c = 0x20 \<or> c = 0xA0 \<or> c = 0x1680
      \<or> (0x2000 \<le> c \<and> c \<le> 0x200A) \<or> c = 0x202F \<or> c = 0x205F \<or> c = 0x3000
      \<or> c = 0xFEFF \<or> isLineTerminator c)"

definition trim :: "jsstring \<Rightarrow> jsstring" where
  "trim s = rev (dropWhile isWhiteSpace (rev (dropWhile isWhiteSpace s)))"

text \<open>
  The filter: \<^verbatim>\<open>replaceAll\<close> of the two code units backslash and \<open>n\<close> by a line feed,
  then the removal of the matches, then \<^verbatim>\<open>trim\<close>.
\<close>

definition filterCommitMessage :: "jsstring \<Rightarrow> jsstring" where
  "filterCommitMessage msg =
     trim (removeSignedOffBy (replaceAll [0x5C, 0x6E] [0x0A] msg))"

declare replaceAll.simps [simp del] removeSignedOffBy.simps [simp del]

text \<open>
  The filter in the words of the specification, to compare the code with: the lines (the
  parts between line feeds) that have a match of \<^verbatim>\<open>/Signed-off-by:.*/\<close>, that is, an
  occurrence of \<^verbatim>\<open>Signed-off-by:\<close>, are left out; then every backslash-n becomes a line
  feed; then the text is trimmed.
\<close>

definition splitLines :: "jsstring \<Rightarrow> jsstring list" where
  "splitLines s = foldr (\<lambda>c ls. if c = 0x0A then [] # ls else (c # hd ls) # tl ls) s [[]]"

fun joinLines :: "jsstring list \<Rightarrow> jsstring" where
  "joinLines [] = []"
| "joinLines [l] = l"
| "joinLines (l # m # ls) = l @ 0x0A # joinLines (m # ls)"

definition matchesSignedOffBy :: "jsstring \<Rightarrow> bool" where
  "matchesSignedOffBy l = list_ex (prefix signedOffBy) (suffixes l)"

definition stripMatchingLines :: "jsstring \<Rightarrow> jsstring" where
  "stripMatchingLines s = joinLines (filter (\<lambda>l. \<not> matchesSignedOffBy l) (splitLines s))"

definition filterAsStated :: "jsstring \<Rightarrow> jsstring" where
  "filterAsStated msg = trim (replaceAll [0x5C, 0x6E] [0x0A] (stripMatchingLines msg))"

text \<open>
  Three messages: a line with text before the signature, a signature line between two
  lines, and a signature followed by a backslash-n and more text.
\<close>

definition reviewedMessage :: jsstring where
  "reviewedMessage = str ''Reviewed by B. Signed-off-by: A <a@b>''"

definition threeLines :: jsstring where
  "threeLines = str ''a'' @ [0x0A] @ str ''Signed-off-by: A'' @ [0x0A] @ str ''b''"

definition signedThenText :: jsstring where
  "signedThenText = str ''Signed-off-by: A'' @ [0x5C, 0x6E] @ str ''important''"

definition backslashN :: jsstring where
  "backslashN = [0x5C, 0x6E]"

definition exampleMessage :: jsstring where
  "exampleMessage =
     str ''  fix bug'' @ backslashN @ backslashN @ str ''Signed-off-by: A <a@b>'' @ backslashN
       @ str ''more Signed-off-by: x  ''"

subsection \<open>Timeline response (\<^verbatim>\<open>Database.convertToTimelineResponse\<close>)\<close>

text \<open>
  A row of the timeline query. A cell is \<open>None\<close> for SQL \<^verbatim>\<open>NULL\<close> (JavaScript
  \<^verbatim>\<open>null\<close>). \<^verbatim>\<open>parseInt(row.sourceid)\<close> is the identity on the integer the driver
  returns. \<open>PlotData\<close> is the list of its columns; \<open>push k v d\<close> is \<^verbatim>\<open>d[k].push(v)\<close>,
  which raises when \<^verbatim>\<open>d[k]\<close> is undefined.
\<close>

record 'a timelineRow =
  starttime :: "'a option"
  branch :: string
  iscurrent :: bool
  sourceid :: int
  median :: "'a option"
  bci95low :: "'a option"
  bci95up :: "'a option"

record 'a timelineResponse =
  baseBranchName :: "string option"
  changeBranchName :: "string option"
  baseTimestamp :: "'a option"
  changeTimestamp :: "'a option"
  data :: "'a option list list"
  sourceIds :: "int list"

definition push :: "nat \<Rightarrow> 'a \<Rightarrow> 'a list list \<Rightarrow> error + 'a list list" where
  "push k v d = (if k < length d then Inr (d[k := d ! k @ [v]]) else Inl TypeError)"

definition convertRow ::
  "string option \<Rightarrow> 'a timelineRow \<Rightarrow> 'a timelineResponse \<Rightarrow> error + 'a timelineResponse" where
  "convertRow base row st =
     bindE (push 0 (starttime row) (data st)) (\<lambda>d0.
       let st1 = st\<lparr>data := d0, sourceIds := sourceIds st @ [sourceid row]\<rparr> in
       if base = None \<or> Some (branch row) = base then
         let st2 = (if base \<noteq> None \<and> iscurrent row
                    then st1\<lparr>baseTimestamp := starttime row\<rparr> else st1) in
         bindE (push 1 (bci95low row) (data st2)) (\<lambda>d1.
         bindE (push 2 (median row) d1) (\<lambda>d2.
         bindE (push 3 (bci95up row) d2) (\<lambda>d3.
           if base \<noteq> None then
             bindE (push 4 None d3) (\<lambda>d4.
             bindE (push 5 None d4) (\<lambda>d5.
             bindE (push 6 None d5) (\<lambda>d6. Inr (st2\<lparr>data := d6\<rparr>))))
           else Inr (st2\<lparr>data := d3\<rparr>))))
       else
         let st2 = (if iscurrent row then st1\<lparr>changeTimestamp := starttime row\<rparr> else st1) in
         bindE (push 1 None (data st2)) (\<lambda>d1.
         bindE (push 2 None d1) (\<lambda>d2.
         bindE (push 3 None d2) (\<lambda>d3.
           if base \<noteq> None then
             bindE (push 4 (bci95low row) d3) (\<lambda>d4.
             bindE (push 5 (median row) d4) (\<lambda>d5.
             bindE (push 6 (bci95up row) d5) (\<lambda>d6. Inr (st2\<lparr>data := d6\<rparr>))))
           else Inr (st2\<lparr>data := d3\<rparr>)))))"

fun convertRows ::
  "string option \<Rightarrow> 'a timelineRow list \<Rightarrow> 'a timelineResponse \<Rightarrow> error + 'a timelineResponse" where
  "convertRows base [] st = Inr st"
| "convertRows base (row # rowList) st = bindE (convertRow base row st) (convertRows base rowList)"

definition convertToTimelineResponse ::
  "'a timelineRow list \<Rightarrow> string option \<Rightarrow> string option \<Rightarrow> error + 'a timelineResponse" where
  "convertToTimelineResponse rowList base change =
     convertRows base rowList
       \<lparr>baseBranchName = base, changeBranchName = change,
        baseTimestamp = None, changeTimestamp = None,
        data = (if base \<noteq> None then [[], [], [], [], [], [], []] else [[], [], [], []]),
        sourceIds = []\<rparr>"

text \<open>The columns as the claim describes them.\<close>

definition onBase :: "string option \<Rightarrow> 'a timelineRow \<Rightarrow> bool" where
  "onBase base row = (base = None \<or> Some (branch row) = base)"

definition baseCell :: "string option \<Rightarrow> ('a timelineRow \<Rightarrow> 'a option) \<Rightarrow> 'a timelineRow \<Rightarrow> 'a option" where
  "baseCell base f row = (if onBase base row then f row else None)"

definition changeCell :: "string option \<Rightarrow> ('a timelineRow \<Rightarrow> 'a option) \<Rightarrow> 'a timelineRow \<Rightarrow> 'a option" where
  "changeCell base f row = (if onBase base row then None else f row)"

definition plotColumns :: "string option \<Rightarrow> 'a timelineRow list \<Rightarrow> 'a option list list" where
  "plotColumns base rowList =
     (if base \<noteq> None
      then [map starttime rowList,
            map (baseCell base bci95low) rowList, map (baseCell base median) rowList,
            map (baseCell base bci95up) rowList,
            map (changeCell base bci95low) rowList, map (changeCell base median) rowList,
            map (changeCell base bci95up) rowList]
      else [map starttime rowList, map bci95low rowList, map median rowList, map bci95up rowList])"

definition exampleRows :: "int timelineRow list" where
  "exampleRows =
     [\<lparr>starttime = Some 10, branch = ''main'', iscurrent = True, sourceid = 1,
       median = Some 5, bci95low = Some 4, bci95up = Some 6\<rparr>,
      \<lparr>starttime = Some 20, branch = ''feature'', iscurrent = True, sourceid = 2,
       median = Some 7, bci95low = Some 6, bci95up = Some 8\<rparr>]"

subsection \<open>JavaScript values, queries and the service state\<close>

text \<open>
  Rows, parameters and cache entries are untyped in the source (\<^verbatim>\<open>any\<close>). A value is
  \<^verbatim>\<open>undefined\<close>, \<^verbatim>\<open>null\<close>, an integral number, a non-integral finite double (which the
  code only passes on; \<open>Double m e\<close> stands for \<open>m * 10 ^ e\<close>), a string, a boolean or an
  object with named properties.
\<close>

datatype double = Double int int

datatype js =
    Undefined
  | Null
  | Num int
  | Dbl double
  | Str string
  | Bool bool
  | Obj "(string \<times> js) list"

text \<open>
  Property access \<^verbatim>\<open>v.k\<close>: a \<^verbatim>\<open>TypeError\<close> on \<^verbatim>\<open>undefined\<close> and \<^verbatim>\<open>null\<close>,
  \<^verbatim>\<open>undefined\<close> for a property an object does not have. The properties read by the code
  (\<^verbatim>\<open>id\<close>, \<^verbatim>\<open>name\<close>, column names) are not properties of primitive values.
\<close>

fun getProp :: "js \<Rightarrow> string \<Rightarrow> error + js" where
  "getProp Undefined k = Inl TypeError"
| "getProp Null k = Inl TypeError"
| "getProp (Obj fs) k = Inr (case map_of fs k of None \<Rightarrow> Undefined | Some v \<Rightarrow> v)"
| "getProp v k = Inr Undefined"

text \<open>
  The string a template literal makes of a value. The decimal rendering of a non-integral
  double is not modelled (no modelled code renders one); it is written as \<open>m\<close>, \<open>e\<close>, \<open>e\<close>.
\<close>

definition intToString :: "int \<Rightarrow> string" where
  "intToString n = (if n < 0 then ''-'' @ numToString (nat (- n)) else numToString (nat n))"

fun toString :: "js \<Rightarrow> string" where
  "toString Undefined = ''undefined''"
| "toString Null = ''null''"
| "toString (Num n) = intToString n"
| "toString (Dbl (Double m e)) = intToString m @ ''e'' @ intToString e"
| "toString (Str s) = s"
| "toString (Bool b) = (if b then ''true'' else ''false'')"
| "toString (Obj fs) = ''[object Object]''"

text \<open>
  A query configuration is the name of a prepared statement and its parameters (the
  statement text is fixed by the name). A result has the driver's \<^verbatim>\<open>rowCount\<close> and
  \<^verbatim>\<open>rows\<close>; \<open>firstRow\<close> is \<^verbatim>\<open>rows[0]\<close>.
\<close>

record query =
  qname :: string
  qvalues :: "js list"

record result =
  rowCount :: nat
  rows :: "js list"

definition firstRow :: "result \<Rightarrow> js" where
  "firstRow r = (case rows r of [] \<Rightarrow> Undefined | x # _ \<Rightarrow> x)"

text \<open>
  \<^verbatim>\<open>Database.query\<close> is abstract in the source: the model takes it as a parameter, a function
  from a query and the state of the database behind the connection pool to an error or a
  result, and the next state of the database.
\<close>

type_synonym 'db querier = "query \<Rightarrow> 'db \<Rightarrow> (error + result) \<times> 'db"

text \<open>
  Modelled from the spec: \<^verbatim>\<open>BatchingTimelineUpdater\<close> (\<^verbatim>\<open>src/timeline-calc.ts\<close>) is not among
  the sources. The model records the calls the database object makes to it:
  \<^verbatim>\<open>addValue(runId, trialId, criterionId, value)\<close> and \<^verbatim>\<open>submitUpdateJobs()\<close>.
\<close>

record updater =
  addValueCalls :: "(js \<times> js \<times> js \<times> js) list"
  submitUpdateJobsCalls :: nat

definition addValue :: "js \<Rightarrow> js \<Rightarrow> js \<Rightarrow> js \<Rightarrow> updater \<Rightarrow> updater" where
  "addValue runId trialId criterionId v u =
     u\<lparr>addValueCalls := addValueCalls u @ [(runId, trialId, criterionId, v)]\<rparr>"


text \<open>
  The fields of a \<^verbatim>\<open>Database\<close> object: the ten interning caches (a \<^verbatim>\<open>Map\<close> from a string
  key to a row), the token of the statistics cache with the store it lives in, the timeline
  updater (\<open>None\<close> for \<^verbatim>\<open>null\<close>, when the timeline is disabled), and the state of the
  database itself.
\<close>

record 'db database =
  executors :: "string \<rightharpoonup> js"
  suites :: "string \<rightharpoonup> js"
  benchmarks :: "string \<rightharpoonup> js"
  runs :: "string \<rightharpoonup> js"
  sources :: "string \<rightharpoonup> js"
  envs :: "string \<rightharpoonup> js"
  trials :: "string \<rightharpoonup> js"
  exps :: "string \<rightharpoonup> js"
  criteria :: "string \<rightharpoonup> js"
  projects :: "string \<rightharpoonup> js"
  statsValid :: nat
  tokenStore :: store
  timelineUpdater :: "updater option"
  conn :: 'db

text \<open>
  A method of the object takes the state and returns an error or a value, and the state it
  leaves: an exception does not undo what was done before it.
\<close>

type_synonym ('db, 'a) action = "'db database \<Rightarrow> (error + 'a) \<times> 'db database"

definition returnS :: "'a \<Rightarrow> ('db, 'a) action" where
  "returnS v s = (Inr v, s)"

definition throwS :: "error \<Rightarrow> ('db, 'a) action" where
  "throwS e s = (Inl e, s)"

definition bindS :: "('db, 'a) action \<Rightarrow> ('a \<Rightarrow> ('db, 'b) action) \<Rightarrow> ('db, 'b) action" where
  "bindS m f s = (case m s of (Inl e, s') \<Rightarrow> (Inl e, s') | (Inr v, s') \<Rightarrow> f v s')"

text \<open>\<^verbatim>\<open>try { m } catch (e) { h(e) }\<close>.\<close>

definition catchS :: "('db, 'a) action \<Rightarrow> (error \<Rightarrow> ('db, 'a) action) \<Rightarrow> ('db, 'a) action" where
  "catchS m h s = (case m s of (Inl e, s') \<Rightarrow> h e s' | (Inr v, s') \<Rightarrow> (Inr v, s'))"

definition liftE :: "error + 'a \<Rightarrow> ('db, 'a) action" where
  "liftE r s = (r, s)"

definition runQuery :: "'db querier \<Rightarrow> query \<Rightarrow> ('db, result) action" where
  "runQuery q cfg s = (case q cfg (conn s) of (r, db') \<Rightarrow> (r, s\<lparr>conn := db'\<rparr>))"

definition isUniqueViolationError :: "error \<Rightarrow> bool" where
  "isUniqueViolationError err = (case err of DbError code \<Rightarrow> code = ''23505'' | _ \<Rightarrow> False)"

text \<open>
  Modelled from the spec: \<^verbatim>\<open>assert\<close> of \<^verbatim>\<open>src/logging.ts\<close> is not among the sources; a
  failed assertion raises.
\<close>

definition assert :: "bool \<Rightarrow> ('db, unit) action" where
  "assert b = (if b then returnS () else throwS AssertionError)"

subsection \<open>Interning cache (\<^verbatim>\<open>Database.recordCached\<close>)\<close>

text \<open>
  The cache argument is one of the object's maps: it is given by its field selector and
  its field update. \<open>fetchQ\<close> and \<open>insertQ\<close> are query configurations.
\<close>

definition recordCached ::
  "'db querier \<Rightarrow> ('db database \<Rightarrow> string \<rightharpoonup> js)
     \<Rightarrow> (((string \<rightharpoonup> js) \<Rightarrow> (string \<rightharpoonup> js)) \<Rightarrow> 'db database \<Rightarrow> 'db database)
     \<Rightarrow> string \<Rightarrow> query \<Rightarrow> query \<Rightarrow> ('db, js) action" where
  "recordCached q cache cache_update cacheKey fetchQ insertQ s =
     (case cache s cacheKey of
        Some row \<Rightarrow> (Inr row, s)
      | None \<Rightarrow>
         bindS (runQuery q fetchQ) (\<lambda>result.
         bindS (if rowCount result = 0
                then catchS (runQuery q insertQ) (\<lambda>e.
                       bindS (runQuery q fetchQ) (\<lambda>result.
                         if rowCount result = 0 then throwS e else returnS result))
                else returnS result) (\<lambda>result.
         bindS (assert (rowCount result = 1)) (\<lambda>_.
           (\<lambda>s. (Inr (firstRow result), cache_update (\<lambda>c. c(cacheKey \<mapsto> firstRow result)) s)))))
         s)"

text \<open>
  A database that answers from a script, one prepared answer per query, whatever the query:
  the behaviour of a database that other clients write to at the same time.
\<close>

definition scripted :: "((error + result) list) querier" where
  "scripted cfg db =
     (case db of [] \<Rightarrow> (Inl (DbError ''08006''), []) | r # rs \<Rightarrow> (r, rs))"

definition emptyDatabase :: "'db \<Rightarrow> 'db database" where
  "emptyDatabase db =
     \<lparr>executors = Map.empty, suites = Map.empty, benchmarks = Map.empty, runs = Map.empty,
      sources = Map.empty, envs = Map.empty, trials = Map.empty, exps = Map.empty,
      criteria = Map.empty, projects = Map.empty,
      statsValid = 0,
      tokenStore = \<lparr>tokens = [\<lparr>valid = True, scheduledInvalidation = False,
                                 invalidationDelay = 0\<rparr>], timers = []\<rparr>,
      timelineUpdater = None, conn = db\<rparr>"

text \<open>
  An ingestion of the executor \<open>exe\<close> into an empty database whose insert is cancelled
  (SQLSTATE 57014, not a unique violation) while another client stores the row.
\<close>

definition fetchExe :: query where
  "fetchExe = \<lparr>qname = ''fetchExecutorByName'', qvalues = [Str ''exe'']\<rparr>"

definition insertExe :: query where
  "insertExe = \<lparr>qname = ''insertExecutor'', qvalues = [Str ''exe'', Null]\<rparr>"

definition exeRow :: js where
  "exeRow = Obj [(''id'', Num 1), (''name'', Str ''exe''), (''description'', Null)]"

definition cancelledInsert :: "((error + result) list) database" where
  "cancelledInsert =
     emptyDatabase [Inr \<lparr>rowCount = 0, rows = []\<rparr>, Inl (DbError ''57014''),
                    Inr \<lparr>rowCount = 1, rows = [exeRow]\<rparr>]"

subsection \<open>Recording measurements (\<^verbatim>\<open>Database.recordMeasurements\<close>)\<close>

text \<open>
  Modelled from the spec: the payload types of \<^verbatim>\<open>src/api.ts\<close> are not among the sources.
  A data point has an invocation, an iteration and its measures; a measure has the index
  of its criterion in the payload and its value.
\<close>

record measure =
  m_c :: int
  m_v :: js

record dataPoint =
  dp_in :: int
  dp_it :: int
  dp_m :: "measure list"

text \<open>
  The map of available measurements is a nested object: run id, criterion id, invocation,
  and the largest iteration stored. The keys of an object are the strings of the values.
\<close>

type_synonym availableMs = "string \<rightharpoonup> (string \<rightharpoonup> (string \<rightharpoonup> js))"

text \<open>\<^verbatim>\<open>xs[i]\<close> on an array: \<^verbatim>\<open>undefined\<close> beyond its end.\<close>

definition elem :: "js list \<Rightarrow> nat \<Rightarrow> js" where
  "elem xs i = (if i < length xs then xs ! i else Undefined)"

text \<open>
  \<^verbatim>\<open>a >= b\<close>. Both operands are made primitive (a plain object becomes the string
  \<^verbatim>\<open>[object Object]\<close>). Two strings are compared by their code units. Otherwise both are
  converted to numbers (\<^verbatim>\<open>undefined\<close> to \<^verbatim>\<open>NaN\<close>, \<^verbatim>\<open>null\<close> to 0, a boolean to 0 or 1, a string
  by the grammar of numeric strings), and the comparison is false when one of them is
  \<^verbatim>\<open>NaN\<close>. A finite number \<open>Fin m e\<close> stands for \<open>m * 10 ^ e\<close>; numbers are compared exactly:
  the rounding of a long numeric string to a double is not modelled.
\<close>

datatype jsnum = NaN | NegInf | Fin int int | PosInf

definition isStrWhiteSpace :: "char \<Rightarrow> bool" where
  "isStrWhiteSpace c = ((of_char c :: nat) \<in> {9, 10, 11, 12, 13, 32, 160})"

definition trimString :: "string \<Rightarrow> string" where
  "trimString s = rev (dropWhile isStrWhiteSpace (rev (dropWhile isStrWhiteSpace s)))"

definition digitValue :: "char \<Rightarrow> nat option" where
  "digitValue c =
     (let n = (of_char c :: nat) in
      if 48 \<le> n \<and> n \<le> 57 then Some (n - 48)
      else if 97 \<le> n \<and> n \<le> 102 then Some (n - 87)
      else if 65 \<le> n \<and> n \<le> 70 then Some (n - 55)
      else None)"

definition isBaseDigit :: "nat \<Rightarrow> char \<Rightarrow> bool" where
  "isBaseDigit base c = (case digitValue c of None \<Rightarrow> False | Some v \<Rightarrow> v < base)"

definition parseBase :: "nat \<Rightarrow> string \<Rightarrow> nat" where
  "parseBase base ds = foldl (\<lambda>a c. base * a + the (digitValue c)) 0 ds"

text \<open>\<^verbatim>\<open>0x\<close>, \<^verbatim>\<open>0o\<close> and \<^verbatim>\<open>0b\<close> literals, which take no sign.\<close>

definition nonDecimalLiteral :: "string \<Rightarrow> nat option" where
  "nonDecimalLiteral s =
     (case s of
        c0 # c1 # ds \<Rightarrow>
          (let base = (if c1 = CHR ''x'' \<or> c1 = CHR ''X'' then 16
                       else if c1 = CHR ''o'' \<or> c1 = CHR ''O'' then 8
                       else if c1 = CHR ''b'' \<or> c1 = CHR ''B'' then 2 else 0) in
           if c0 = CHR ''0'' \<and> base \<noteq> 0 \<and> ds \<noteq> [] \<and> list_all (isBaseDigit base) ds
           then Some (parseBase base ds) else None)
      | _ \<Rightarrow> None)"

definition exponentDigits :: "string \<Rightarrow> int option" where
  "exponentDigits ds = (if ds \<noteq> [] \<and> list_all isDigit ds then Some (int (parseNat ds)) else None)"

definition exponentPart :: "string \<Rightarrow> int option" where
  "exponentPart r =
     (case r of
        [] \<Rightarrow> Some 0
      | c # ds \<Rightarrow>
          if c = CHR ''e'' \<or> c = CHR ''E'' then
            (case ds of
               [] \<Rightarrow> None
             | d # ds' \<Rightarrow>
                 if d = CHR ''+'' then exponentDigits ds'
                 else if d = CHR ''-'' then map_option uminus (exponentDigits ds')
                 else exponentDigits ds)
          else None)"

definition unsignedDecimal :: "string \<Rightarrow> jsnum" where
  "unsignedDecimal r =
     (if r = ''Infinity'' then PosInf
      else
        (let ip = takeWhile isDigit r;
             r1 = dropWhile isDigit r;
             dot = (case r1 of [] \<Rightarrow> False | c # _ \<Rightarrow> c = CHR ''.'');
             fp = (if dot then takeWhile isDigit (tl r1) else []);
             r2 = (if dot then dropWhile isDigit (tl r1) else r1)
         in if ip = [] \<and> fp = [] then NaN
            else (case exponentPart r2 of
                    None \<Rightarrow> NaN
                  | Some e \<Rightarrow> Fin (int (parseNat (ip @ fp))) (e - int (length fp)))))"

fun negate :: "jsnum \<Rightarrow> jsnum" where
  "negate NaN = NaN"
| "negate NegInf = PosInf"
| "negate (Fin m e) = Fin (- m) e"
| "negate PosInf = NegInf"

definition stringToNumber :: "string \<Rightarrow> jsnum" where
  "stringToNumber s =
     (let t = trimString s in
      case t of
        [] \<Rightarrow> Fin 0 0
      | c # r \<Rightarrow>
          (case nonDecimalLiteral t of
             Some n \<Rightarrow> Fin (int n) 0
           | None \<Rightarrow>
               if c = CHR ''+'' then unsignedDecimal r
               else if c = CHR ''-'' then negate (unsignedDecimal r)
               else unsignedDecimal t))"

fun toPrimitive :: "js \<Rightarrow> js" where
  "toPrimitive (Obj fs) = Str ''[object Object]''"
| "toPrimitive v = v"

fun toNumber :: "js \<Rightarrow> jsnum" where
  "toNumber Undefined = NaN"
| "toNumber Null = Fin 0 0"
| "toNumber (Num n) = Fin n 0"
| "toNumber (Dbl (Double m e)) = Fin m e"
| "toNumber (Str s) = stringToNumber s"
| "toNumber (Bool b) = Fin (if b then 1 else 0) 0"
| "toNumber (Obj fs) = NaN"

definition finLe :: "int \<Rightarrow> int \<Rightarrow> int \<Rightarrow> int \<Rightarrow> bool" where
  "finLe m1 e1 m2 e2 =
     (let k = min e1 e2 in m1 * 10 ^ nat (e1 - k) \<le> m2 * 10 ^ nat (e2 - k))"

fun numGe :: "jsnum \<Rightarrow> jsnum \<Rightarrow> bool" where
  "numGe NaN b = False"
| "numGe a NaN = False"
| "numGe PosInf b = True"
| "numGe a NegInf = True"
| "numGe NegInf b = False"
| "numGe a PosInf = False"
| "numGe (Fin m1 e1) (Fin m2 e2) = finLe m2 e2 m1 e1"

fun strLess :: "string \<Rightarrow> string \<Rightarrow> bool" where
  "strLess [] [] = False"
| "strLess [] (y # ys) = True"
| "strLess (x # xs) [] = False"
| "strLess (x # xs) (y # ys) =
     ((of_char x :: nat) < of_char y \<or> (x = y \<and> strLess xs ys))"

definition jsGe :: "js \<Rightarrow> js \<Rightarrow> bool" where
  "jsGe a b =
     (case toPrimitive a of
        Str x \<Rightarrow>
          (case toPrimitive b of
             Str y \<Rightarrow> \<not> strLess x y
           | pb \<Rightarrow> numGe (stringToNumber x) (toNumber pb))
      | pa \<Rightarrow> numGe (toNumber pa) (toNumber (toPrimitive b)))"

definition alreadyRecorded :: "availableMs \<Rightarrow> js list \<Rightarrow> bool" where
  "alreadyRecorded measurements vs =
     (let runId = elem vs 0; inv = elem vs 2; ite = elem vs 3; critId = elem vs 4 in
      case measurements (toString runId) of
        Some run \<Rightarrow>
          (case run (toString critId) of
             Some crit \<Rightarrow>
               (case crit (toString inv) of
                  Some maxIte \<Rightarrow> jsGe maxIte ite
                | None \<Rightarrow> False)
           | None \<Rightarrow> False)
      | None \<Rightarrow> False)"

text \<open>The three insert statements; each returns the driver's \<^verbatim>\<open>rowCount\<close>.\<close>

definition recordMeasurement :: "'db querier \<Rightarrow> js list \<Rightarrow> ('db, nat) action" where
  "recordMeasurement q vs =
     bindS (runQuery q \<lparr>qname = ''insertMeasurement'', qvalues = vs\<rparr>)
       (\<lambda>r. returnS (rowCount r))"

definition recordMeasurementBatched10 :: "'db querier \<Rightarrow> js list \<Rightarrow> ('db, nat) action" where
  "recordMeasurementBatched10 q vs =
     bindS (runQuery q \<lparr>qname = ''insertMeasurement10'', qvalues = vs\<rparr>)
       (\<lambda>r. returnS (rowCount r))"

definition recordMeasurementBatchedN :: "'db querier \<Rightarrow> js list \<Rightarrow> ('db, nat) action" where
  "recordMeasurementBatchedN q vs =
     bindS (runQuery q \<lparr>qname = ''insertMeasurementN'', qvalues = vs\<rparr>)
       (\<lambda>r. returnS (rowCount r))"

text \<open>
  \<^verbatim>\<open>recordMeasurementsFromBatch\<close>: \<^verbatim>\<open>batchedValues.splice(6 * 1)\<close> leaves the first six
  values in the array and returns the rest.
\<close>

function recordMeasurementsFromBatchLoop ::
  "'db querier \<Rightarrow> js list \<Rightarrow> nat \<Rightarrow> ('db, nat) action" where
  "recordMeasurementsFromBatchLoop q batchedValues recordedMeasurements s =
     (if length batchedValues > 0 then
        (let rest = drop (6 * 1) batchedValues in
         case catchS (bindS (recordMeasurement q (take (6 * 1) batchedValues))
                        (\<lambda>result. returnS (recordedMeasurements + result)))
                (\<lambda>err. if \<not> isUniqueViolationError err then throwS err
                        else returnS recordedMeasurements) s of
           (Inl e, s') \<Rightarrow> (Inl e, s')
         | (Inr recorded, s') \<Rightarrow> recordMeasurementsFromBatchLoop q rest recorded s')
      else (Inr recordedMeasurements, s))"
  by pat_completeness auto
termination
  by (relation "measure (\<lambda>(q, batchedValues, recordedMeasurements, s). length batchedValues)")
     auto

definition recordMeasurementsFromBatch :: "'db querier \<Rightarrow> js list \<Rightarrow> ('db, nat) action" where
  "recordMeasurementsFromBatch q batchedValues = recordMeasurementsFromBatchLoop q batchedValues 0"

text \<open>
  The local variables \<^verbatim>\<open>recordedMeasurements\<close>, \<^verbatim>\<open>batchedMs\<close> and \<^verbatim>\<open>batchedValues\<close> of
  \<^verbatim>\<open>recordMeasurements\<close>.
\<close>

record locals =
  lRecordedMeasurements :: nat
  lBatchedMs :: nat
  lBatchedValues :: "js list"

text \<open>
  The body of the inner loop is split in three: the tuple of a measure (the array
  \<^verbatim>\<open>values\<close> and the criterion), the call of the updater, and the insert of a full batch.
  \<open>criteriaMap\<close> is the map \<^verbatim>\<open>criteria\<close> of \<^verbatim>\<open>resolveCriteria\<close>, or \<open>None\<close> for \<^verbatim>\<open>null\<close>.
\<close>

definition tupleOf ::
  "js \<Rightarrow> js \<Rightarrow> (int \<rightharpoonup> js) option \<Rightarrow> dataPoint \<Rightarrow> measure \<Rightarrow> error + (js \<times> js list)" where
  "tupleOf run trial criteriaMap d m =
     (case criteriaMap of
        None \<Rightarrow> Inl TypeError
      | Some cs \<Rightarrow>
          (let criterion = (case cs (m_c m) of None \<Rightarrow> Undefined | Some c \<Rightarrow> c) in
           bindE (getProp run ''id'') (\<lambda>runId.
           bindE (getProp trial ''id'') (\<lambda>trialId.
           bindE (getProp criterion ''id'') (\<lambda>criterionId.
             Inr (criterion, [runId, trialId, Num (dp_in d), Num (dp_it d), criterionId, m_v m]))))))"

definition notifyUpdater :: "string \<Rightarrow> js \<Rightarrow> js list \<Rightarrow> ('db, unit) action" where
  "notifyUpdater totalCriterion criterion vs s =
     (case timelineUpdater s of
        None \<Rightarrow> (Inr (), s)
      | Some u \<Rightarrow>
          (case getProp criterion ''name'' of
             Inl e \<Rightarrow> (Inl e, s)
           | Inr name \<Rightarrow>
               if name = Str totalCriterion
               then (Inr (), s\<lparr>timelineUpdater :=
                       Some (addValue (elem vs 0) (elem vs 1) (elem vs 4) (elem vs 5) u)\<rparr>)
               else (Inr (), s)))"

definition insertBatchN :: "'db querier \<Rightarrow> locals \<Rightarrow> ('db, locals) action" where
  "insertBatchN q l =
     (if lBatchedMs l = batchN then
        bindS (catchS (bindS (recordMeasurementBatchedN q (lBatchedValues l))
                         (\<lambda>result. returnS (lRecordedMeasurements l + result)))
                 (\<lambda>err. if isUniqueViolationError err
                         then bindS (recordMeasurementsFromBatch q (lBatchedValues l))
                                (\<lambda>n. returnS (lRecordedMeasurements l + n))
                         else throwS err))
          (\<lambda>recorded. returnS (l\<lparr>lRecordedMeasurements := recorded, lBatchedValues := [],
                                   lBatchedMs := 0\<rparr>))
      else returnS l)"

definition recordTuple ::
  "'db querier \<Rightarrow> string \<Rightarrow> js \<Rightarrow> js \<Rightarrow> (int \<rightharpoonup> js) option \<Rightarrow> availableMs
     \<Rightarrow> dataPoint \<Rightarrow> measure \<Rightarrow> locals \<Rightarrow> ('db, locals) action" where
  "recordTuple q totalCriterion run trial criteriaMap availableMs d m l =
     bindS (liftE (tupleOf run trial criteriaMap d m)) (\<lambda>(criterion, vs).
       if alreadyRecorded availableMs vs then returnS l
       else
         bindS (notifyUpdater totalCriterion criterion vs) (\<lambda>_.
           insertBatchN q (l\<lparr>lBatchedMs := lBatchedMs l + 1,
                             lBatchedValues := lBatchedValues l @ vs\<rparr>)))"

text \<open>\<^verbatim>\<open>for (const m of d.m)\<close> and \<^verbatim>\<open>for (const d of dataPoints)\<close>.\<close>

fun measuresLoop ::
  "'db querier \<Rightarrow> string \<Rightarrow> js \<Rightarrow> js \<Rightarrow> (int \<rightharpoonup> js) option \<Rightarrow> availableMs
     \<Rightarrow> dataPoint \<Rightarrow> measure list \<Rightarrow> locals \<Rightarrow> ('db, locals) action" where
  "measuresLoop q tc run trial criteriaMap availableMs d [] l s = (Inr l, s)"
| "measuresLoop q tc run trial criteriaMap availableMs d (m # ms) l s =
     (case recordTuple q tc run trial criteriaMap availableMs d m l s of
        (Inl e, s') \<Rightarrow> (Inl e, s')
      | (Inr l', s') \<Rightarrow> measuresLoop q tc run trial criteriaMap availableMs d ms l' s')"

fun dataPointsLoop ::
  "'db querier \<Rightarrow> string \<Rightarrow> js \<Rightarrow> js \<Rightarrow> (int \<rightharpoonup> js) option \<Rightarrow> availableMs
     \<Rightarrow> dataPoint list \<Rightarrow> locals \<Rightarrow> ('db, locals) action" where
  "dataPointsLoop q tc run trial criteriaMap availableMs [] l s = (Inr l, s)"
| "dataPointsLoop q tc run trial criteriaMap availableMs (d # ds) l s =
     (case measuresLoop q tc run trial criteriaMap availableMs d (dp_m d) l s of
        (Inl e, s') \<Rightarrow> (Inl e, s')
      | (Inr l', s') \<Rightarrow> dataPointsLoop q tc run trial criteriaMap availableMs ds l' s')"

text \<open>
  \<^verbatim>\<open>while (batchedValues.length >= 6 * 10)\<close>: the catch clause handles a unique violation
  and has no \<^verbatim>\<open>else\<close> branch, so that any other error ends there.
\<close>

function batched10Loop :: "'db querier \<Rightarrow> js list \<Rightarrow> nat \<Rightarrow> ('db, nat \<times> js list) action" where
  "batched10Loop q batchedValues recordedMeasurements s =
     (if length batchedValues \<ge> 6 * 10 then
        (let rest = drop (6 * 10) batchedValues in
         case catchS (bindS (recordMeasurementBatched10 q (take (6 * 10) batchedValues))
                        (\<lambda>result. returnS (recordedMeasurements + result)))
                (\<lambda>err. if isUniqueViolationError err
                        then bindS (recordMeasurementsFromBatch q (take (6 * 10) batchedValues))
                               (\<lambda>n. returnS (recordedMeasurements + n))
                        else returnS recordedMeasurements) s of
           (Inl e, s') \<Rightarrow> (Inl e, s')
         | (Inr recorded, s') \<Rightarrow> batched10Loop q rest recorded s')
      else (Inr (recordedMeasurements, batchedValues), s))"
  by pat_completeness auto
termination
  by (relation "measure (\<lambda>(q, batchedValues, recordedMeasurements, s). length batchedValues)")
     auto

definition recordMeasurements ::
  "'db querier \<Rightarrow> string \<Rightarrow> dataPoint list \<Rightarrow> js \<Rightarrow> js \<Rightarrow> (int \<rightharpoonup> js) option \<Rightarrow> availableMs
     \<Rightarrow> ('db, nat) action" where
  "recordMeasurements q totalCriterion dataPoints run trial criteriaMap availableMs =
     bindS (dataPointsLoop q totalCriterion run trial criteriaMap availableMs dataPoints
              \<lparr>lRecordedMeasurements = 0, lBatchedMs = 0, lBatchedValues = []\<rparr>) (\<lambda>l.
     bindS (batched10Loop q (lBatchedValues l) (lRecordedMeasurements l)) (\<lambda>(recorded, rest).
     bindS (recordMeasurementsFromBatch q rest) (\<lambda>n.
       returnS (recorded + n))))"

declare recordMeasurementsFromBatchLoop.simps [simp del] batched10Loop.simps [simp del]

text \<open>
  A database that accepts every statement and keeps the parameters of all the statements
  it was given, in their order; its \<^verbatim>\<open>rowCount\<close> is the number of tuples of six parameters.
\<close>

definition storesAll :: "(js list) querier" where
  "storesAll cfg db = (Inr \<lparr>rowCount = length (qvalues cfg) div 6, rows = []\<rparr>, db @ qvalues cfg)"

text \<open>
  A database that stores the tuples of every measurement insert it accepts, and on which
  the prepared statement \<^verbatim>\<open>insertMeasurement10\<close> is cancelled (SQLSTATE 57014).
\<close>

definition cancels10 :: "(js list) querier" where
  "cancels10 cfg db =
     (if qname cfg = ''insertMeasurement10'' then (Inl (DbError ''57014''), db)
      else (Inr \<lparr>rowCount = length (qvalues cfg) div 6, rows = []\<rparr>, db @ qvalues cfg))"

text \<open>Ten data points of invocation 1, iterations 1 to 10, one measure of criterion 0 each.\<close>

definition tenDataPoints :: "dataPoint list" where
  "tenDataPoints =
     map (\<lambda>i. \<lparr>dp_in = 1, dp_it = i, dp_m = [\<lparr>m_c = 0, m_v = Num 100\<rparr>]\<rparr>)
       [1, 2, 3, 4, 5, 6, 7, 8, 9, 10]"

definition row1 :: js where
  "row1 = Obj [(''id'', Num 1)]"

definition totalRow :: js where
  "totalRow = Obj [(''id'', Num 1), (''name'', Str ''total''), (''unit'', Str ''ms'')]"

text \<open>
  An action keeps a part \<open>f\<close> of the state when no run of it changes that part.
\<close>

definition keeps :: "('db database \<Rightarrow> 'x) \<Rightarrow> ('db, 'a) action \<Rightarrow> bool" where
  "keeps f m = (\<forall>s. f (snd (m s)) = f s)"

text \<open>
  The measures of the data points in the order of the two loops, each with its data point;
  the measures that the loop skips; and the data points without them.
\<close>

definition measuresOf :: "dataPoint list \<Rightarrow> (dataPoint \<times> measure) list" where
  "measuresOf dataPoints = concat (map (\<lambda>d. map (\<lambda>m. (d, m)) (dp_m d)) dataPoints)"

definition skipped ::
  "js \<Rightarrow> js \<Rightarrow> (int \<rightharpoonup> js) option \<Rightarrow> availableMs \<Rightarrow> dataPoint \<Rightarrow> measure \<Rightarrow> bool" where
  "skipped run trial criteriaMap availableMs d m =
     (case tupleOf run trial criteriaMap d m of
        Inl e \<Rightarrow> False
      | Inr (criterion, vs) \<Rightarrow> alreadyRecorded availableMs vs)"

definition withoutSkipped ::
  "js \<Rightarrow> js \<Rightarrow> (int \<rightharpoonup> js) option \<Rightarrow> availableMs \<Rightarrow> dataPoint list \<Rightarrow> dataPoint list" where
  "withoutSkipped run trial criteriaMap availableMs dataPoints =
     map (\<lambda>d. d\<lparr>dp_m := filter (\<lambda>m. \<not> skipped run trial criteriaMap availableMs d m) (dp_m d)\<rparr>)
       dataPoints"

text \<open>
  The tuples that the claim expects in a batch: the arrays \<^verbatim>\<open>values\<close> of the measures that
  are not skipped, in the order of the two loops.
\<close>

definition acceptedTuples ::
  "js \<Rightarrow> js \<Rightarrow> (int \<rightharpoonup> js) option \<Rightarrow> availableMs \<Rightarrow> (dataPoint \<times> measure) list \<Rightarrow> js list list" where
  "acceptedTuples run trial criteriaMap availableMs dms =
     concat (map (\<lambda>dm. case tupleOf run trial criteriaMap (fst dm) (snd dm) of
                          Inl e \<Rightarrow> []
                        | Inr (criterion, vs) \<Rightarrow> if alreadyRecorded availableMs vs then [] else [vs])
               dms)"

text \<open>
  The calls of \<^verbatim>\<open>addValue\<close> that the claim expects for a list of measures: one for each
  measure that is not skipped and whose criterion has the name of the total criterion.
\<close>

definition expectedCall ::
  "string \<Rightarrow> js \<Rightarrow> js \<Rightarrow> (int \<rightharpoonup> js) option \<Rightarrow> availableMs \<Rightarrow> dataPoint \<times> measure
     \<Rightarrow> (js \<times> js \<times> js \<times> js) list" where
  "expectedCall totalCriterion run trial criteriaMap availableMs dm =
     (case tupleOf run trial criteriaMap (fst dm) (snd dm) of
        Inl e \<Rightarrow> []
      | Inr (criterion, vs) \<Rightarrow>
          if \<not> alreadyRecorded availableMs vs \<and> getProp criterion ''name'' = Inr (Str totalCriterion)
          then [(elem vs 0, elem vs 1, elem vs 4, elem vs 5)] else [])"

definition expectedCalls ::
  "string \<Rightarrow> js \<Rightarrow> js \<Rightarrow> (int \<rightharpoonup> js) option \<Rightarrow> availableMs \<Rightarrow> (dataPoint \<times> measure) list
     \<Rightarrow> (js \<times> js \<times> js \<times> js) list" where
  "expectedCalls totalCriterion run trial criteriaMap availableMs dms =
     concat (map (expectedCall totalCriterion run trial criteriaMap availableMs) dms)"

text \<open>The two loops as one loop over the measures, and the calls the updater has seen.\<close>

fun tuplesLoop ::
  "'db querier \<Rightarrow> string \<Rightarrow> js \<Rightarrow> js \<Rightarrow> (int \<rightharpoonup> js) option \<Rightarrow> availableMs
     \<Rightarrow> (dataPoint \<times> measure) list \<Rightarrow> locals \<Rightarrow> ('db, locals) action" where
  "tuplesLoop q tc run trial criteriaMap availableMs [] l s = (Inr l, s)"
| "tuplesLoop q tc run trial criteriaMap availableMs (dm # dms) l s =
     (case recordTuple q tc run trial criteriaMap availableMs (fst dm) (snd dm) l s of
        (Inl e, s') \<Rightarrow> (Inl e, s')
      | (Inr l', s') \<Rightarrow> tuplesLoop q tc run trial criteriaMap availableMs dms l' s')"

definition updaterCalls :: "'db database \<Rightarrow> (js \<times> js \<times> js \<times> js) list" where
  "updaterCalls s = (case timelineUpdater s of None \<Rightarrow> [] | Some u \<Rightarrow> addValueCalls u)"

definition callsAdded :: "'db database \<Rightarrow> 'db database \<Rightarrow> (js \<times> js \<times> js \<times> js) list \<Rightarrow> bool" where
  "callsAdded s s' cs =
     (case timelineUpdater s of
        None \<Rightarrow> timelineUpdater s' = None
      | Some u \<Rightarrow> timelineUpdater s' = Some (u\<lparr>addValueCalls := addValueCalls u @ cs\<rparr>))"

text \<open>
  A map of available measurements with the largest iteration 5 for run 1, criterion 1 and
  invocation 1, and two data points of invocation 1: iteration 3 (stored) and 7 (new).
\<close>

definition someAvailable :: availableMs where
  "someAvailable = [''1'' \<mapsto> [''1'' \<mapsto> [''1'' \<mapsto> Num 5]]]"

definition twoDataPoints :: "dataPoint list" where
  "twoDataPoints =
     [\<lparr>dp_in = 1, dp_it = 3, dp_m = [\<lparr>m_c = 0, m_v = Num 100\<rparr>]\<rparr>,
      \<lparr>dp_in = 1, dp_it = 7, dp_m = [\<lparr>m_c = 0, m_v = Num 101\<rparr>]\<rparr>]"

definition withUpdater :: "'db database \<Rightarrow> 'db database" where
  "withUpdater s = s\<lparr>timelineUpdater := Some \<lparr>addValueCalls = [], submitUpdateJobsCalls = 0\<rparr>\<rparr>"

subsection \<open>Recording metadata (\<^verbatim>\<open>recordExecutor\<close> to \<^verbatim>\<open>recordMetaData\<close>)\<close>





























subsection \<open>Recording a payload (\<^verbatim>\<open>Database.recordAllData\<close>)\<close>










subsection \<open>Completion of an experiment (\<^verbatim>\<open>Database.reportCompletion\<close>)\<close>





subsection \<open>A relational database behind \<^verbatim>\<open>query\<close>\<close>








































text \<open>A row has a numeric id, as have all rows that the relational model returns.\<close>

definition hasNumId :: "js \<Rightarrow> bool" where
  "hasNumId v = (\<exists>n. getProp v ''id'' = Inr (Num n))"




section \<open>Properties\<close>

subsection \<open>Batch-insert generator\<close>

lemma placeholders_other: "c \<noteq> CHR ''$'' \<Longrightarrow> placeholders (c # cs) = placeholders cs"
  by simp

lemma placeholders_dollar_raw:
  "placeholders (CHR ''$'' # cs) = parseNat (takeWhile isDigit cs) # placeholders (dropWhile isDigit cs)"
  by simp

declare placeholders.simps(2) [simp del]

lemma tupleNumsLoop_eq:
  "tupleNumsLoop i s j acc = acc @ map (\<lambda>k. i * s + k) [j..<Suc s]"
proof (induction i s j acc rule: tupleNumsLoop.induct)
  case (1 i s j acc)
  show ?case
  proof (cases "j \<le> s")
    case True
    then have "[j..<Suc s] = j # [Suc j..<Suc s]"
      by (simp add: upt_conv_Cons)
    with True 1 show ?thesis by (subst tupleNumsLoop.simps) simp
  next
    case False
    then show ?thesis by (subst tupleNumsLoop.simps) simp
  qed
qed

lemma map_add_upt': "map (\<lambda>k. m + k) [a..<b] = [m + a..<m + b]"
  by (induction b) (auto simp: upt_conv_Cons)

lemma numsLoop_eq:
  "numsLoop n s i acc = acc @ map (tupleGroup s) [i..<n]"
proof (induction n s i acc rule: numsLoop.induct)
  case (1 n s i acc)
  show ?case
  proof (cases "i < n")
    case True
    then have u: "[i..<n] = i # [Suc i..<n]"
      by (simp add: upt_conv_Cons)
    have g: "''($'' @ join (map numToString (tupleNumsLoop i s 1 [])) '', $'' @ '')''
             = tupleGroup s i"
    proof -
      have "tupleNumsLoop i s 1 [] = [i * s + 1 ..< i * s + Suc s]"
        using map_add_upt' [of "i * s" 1 "Suc s"] by (simp only: tupleNumsLoop_eq append_Nil)
      moreover have "(i + 1) * s + 1 = i * s + Suc s" by simp
      ultimately show ?thesis by (simp only: tupleGroup_def)
    qed
    show ?thesis
      using True 1 u g by (subst numsLoop.simps) simp
  next
    case False
    then show ?thesis by (subst numsLoop.simps) simp
  qed
qed

lemma generateBatchInsert_eq:
  "generateBatchInsert n s = join (map (tupleGroup s) [0..<n]) [CHR '','', CHR 0x0A]"
  by (simp add: generateBatchInsert_def numsLoop_eq)

lemma isDigit_digitChar: "d < 10 \<Longrightarrow> isDigit (digitChar d)"
  by (simp add: isDigit_def digitChar_def)

lemma digitVal_digitChar: "d < 10 \<Longrightarrow> (of_char (digitChar d) :: nat) - 48 = d"
  by (simp add: digitChar_def)

lemma numToString_digits: "\<forall>c \<in> set (numToString n). isDigit c"
proof (induction n rule: numToString.induct)
  case (1 n)
  show ?case
  proof (cases "n < 10")
    case True
    then show ?thesis by (subst numToString.simps) (simp add: isDigit_digitChar)
  next
    case False
    with 1 show ?thesis
      by (subst numToString.simps) (simp add: isDigit_digitChar)
  qed
qed

lemma parseNat_snoc: "parseNat (ds @ [c]) = 10 * parseNat ds + (of_char c - 48)"
  by (simp add: parseNat_def)

lemma parseNat_numToString: "parseNat (numToString n) = n"
proof (induction n rule: numToString.induct)
  case (1 n)
  show ?case
  proof (cases "n < 10")
    case True
    then show ?thesis by (subst numToString.simps) (simp add: parseNat_def digitVal_digitChar)
  next
    case False
    with 1 have "parseNat (numToString (n div 10)) = n div 10" by simp
    with False show ?thesis
      by (subst numToString.simps) (simp add: parseNat_snoc digitVal_digitChar)
  qed
qed

lemma takeWhile_digits:
  "stops r \<Longrightarrow> takeWhile isDigit (numToString n @ r) = numToString n"
  using numToString_digits [of n]
  by (cases r) (auto simp: stops_def takeWhile_append2)

lemma dropWhile_digits:
  "stops r \<Longrightarrow> dropWhile isDigit (numToString n @ r) = r"
  using numToString_digits [of n]
  by (cases r) (auto simp: stops_def dropWhile_append2)

lemma placeholders_dollar:
  "stops r \<Longrightarrow> placeholders (CHR ''$'' # numToString n @ r) = n # placeholders r"
  by (simp add: placeholders_dollar_raw takeWhile_digits dropWhile_digits parseNat_numToString)

lemma placeholders_join_nums:
  "stops r \<Longrightarrow> ns \<noteq> [] \<Longrightarrow>
   placeholders (CHR ''$'' # join (map numToString ns) '', $'' @ r) = ns @ placeholders r"
proof (induction ns arbitrary: r rule: induct_list012)
  case 1
  then show ?case by simp
next
  case (2 x)
  then show ?case by (simp add: placeholders_dollar)
next
  case (3 x y zs)
  have s: "stops ('', $'' @ join (map numToString (y # zs)) '', $'' @ r)"
    by (simp add: stops_def isDigit_def)
  have "placeholders (CHR ''$'' # join (map numToString (x # y # zs)) '', $'' @ r)
        = x # placeholders ('', $'' @ join (map numToString (y # zs)) '', $'' @ r)"
    using placeholders_dollar [OF s, of x] by (simp)
  also have "\<dots> = x # placeholders (CHR ''$'' # join (map numToString (y # zs)) '', $'' @ r)"
    by (simp add: placeholders_other)
  also have "\<dots> = x # (y # zs) @ placeholders r"
    using 3 by simp
  finally show ?case by simp
qed

lemma placeholders_group:
  "1 \<le> s \<Longrightarrow> placeholders (tupleGroup s i @ r) = [i * s + 1 ..< (i + 1) * s + 1] @ placeholders r"
proof -
  assume s: "1 \<le> s"
  have st: "stops ('')'' @ r)" by (simp add: stops_def isDigit_def)
  have ne: "[i * s + 1 ..< (i + 1) * s + 1] \<noteq> []" using s by simp
  have "placeholders (tupleGroup s i @ r)
        = placeholders (CHR ''$'' # join (map numToString [i * s + 1 ..< (i + 1) * s + 1]) '', $''
                         @ '')'' @ r)"
    by (simp only: tupleGroup_def append_Cons append_Nil append_assoc) (simp only: placeholders_other [of "CHR ''(''"] char.inject simp_thms)
  also have "\<dots> = [i * s + 1 ..< (i + 1) * s + 1] @ placeholders ('')'' @ r)"
    by (rule placeholders_join_nums [OF st ne])
  finally show ?thesis by (simp add: placeholders_other)
qed

lemma upt_append_upt: "a \<le> b \<Longrightarrow> b \<le> c \<Longrightarrow> [a..<b] @ [b..<c] = [a..<c]"
  by (metis le_Suc_ex upt_add_eq_append)

lemma placeholders_groups:
  "1 \<le> s \<Longrightarrow>
   placeholders (join (map (tupleGroup s) [i..<i + Suc k]) [CHR '','', CHR 0x0A] @ r)
     = [i * s + 1 ..< (i + Suc k) * s + 1] @ placeholders r"
proof (induction k arbitrary: i)
  case 0
  then show ?case
    using placeholders_group [of s i r] by simp
next
  case (Suc k)
  have u: "[i..<i + Suc (Suc k)] = i # Suc i # [Suc (Suc i)..<i + Suc (Suc k)]"
    by (simp add: upt_conv_Cons)
  have u': "[Suc i..<Suc i + Suc k] = Suc i # [Suc (Suc i)..<i + Suc (Suc k)]"
    by (simp add: upt_conv_Cons)
  have "placeholders (join (map (tupleGroup s) [i..<i + Suc (Suc k)]) [CHR '','', CHR 0x0A] @ r)
        = placeholders (tupleGroup s i @ [CHR '','', CHR 0x0A]
             @ join (map (tupleGroup s) [Suc i..<Suc i + Suc k]) [CHR '','', CHR 0x0A] @ r)"
    by (simp only: u u' list.map join.simps append_assoc)
  also have "\<dots> = [i * s + 1 ..< (i + 1) * s + 1]
               @ placeholders (join (map (tupleGroup s) [Suc i..<Suc i + Suc k]) [CHR '','', CHR 0x0A] @ r)"
    by (simp add: placeholders_group [OF Suc.prems] placeholders_other)
  also have "\<dots> = [i * s + 1 ..< (i + 1) * s + 1]
               @ [Suc i * s + 1 ..< (Suc i + Suc k) * s + 1] @ placeholders r"
    using Suc.IH [OF Suc.prems, of "Suc i"] by simp
  also have "\<dots> = [i * s + 1 ..< (i + Suc (Suc k)) * s + 1] @ placeholders r"
  proof -
    have e1: "(i + 1) * s + 1 = Suc i * s + 1" by simp
    have e2: "(Suc i + Suc k) * s + 1 = (i + Suc (Suc k)) * s + 1" by simp
    have "[i * s + 1 ..< Suc i * s + 1] @ [Suc i * s + 1 ..< (i + Suc (Suc k)) * s + 1]
          = [i * s + 1 ..< (i + Suc (Suc k)) * s + 1]"
      by (rule upt_append_upt) (simp_all add: add_mult_distrib)
    then show ?thesis
      unfolding e1 e2 by simp
  qed
  finally show ?case .
qed

lemma placeholders_no_dollar:
  "CHR ''$'' \<notin> set p \<Longrightarrow> placeholders (p @ r) = placeholders r"
  by (induction p) (auto simp: placeholders_other)

lemma generateBatchInsert_placeholders_in_text:
  assumes "1 \<le> n" and "1 \<le> s" and "CHR ''$'' \<notin> set p" and "CHR ''$'' \<notin> set r"
  shows "placeholders (p @ generateBatchInsert n s @ r) = [1 ..< n * s + 1]"
proof -
  from assms(1) obtain k where n: "n = Suc k"
    by (cases n) auto
  have "placeholders (generateBatchInsert n s @ r) = [0 * s + 1 ..< (0 + Suc k) * s + 1] @ placeholders r"
    unfolding generateBatchInsert_eq n
    using placeholders_groups [OF assms(2), of 0 k r] by simp
  moreover have "placeholders r = []"
    using placeholders_no_dollar [OF assms(4), of "[]"] by simp
  ultimately show ?thesis
    using placeholders_no_dollar [OF assms(3)] n by simp
qed

lemma insertMeasurementBatchedN_placeholders:
  "placeholders insertMeasurementBatchedN = [1 ..< 301]"
proof -
  have "placeholders
          ((''INSERT INTO Measurement'' @ [CHR 0x0A] @
            ''         (runId, trialId, invocation, iteration, criterion, value)'' @ [CHR 0x0A] @
            ''       VALUES '') @ generateBatchInsert batchN 6 @
           ([CHR 0x0A] @ ''       ON CONFLICT DO NOTHING''))
        = [1 ..< batchN * 6 + 1]"
    by (rule generateBatchInsert_placeholders_in_text) (simp_all add: batchN_def)
  then show ?thesis by (simp add: batchN_def insertMeasurementBatchedN_def)
qed

text \<open>
  Claim C10. For \<open>numTuples \<ge> 1\<close> and \<open>sizeTuples \<ge> 1\<close>, \<open>generateBatchInsert\<close> yields
  \<open>numTuples\<close> parenthesised groups joined by a comma (and a line break), group \<open>i\<close>
  holding the placeholders \<open>$(i*sizeTuples+1)\<close> to \<open>$((i+1)*sizeTuples)\<close> in increasing
  order; read back, the placeholders of the statement are \<open>1, 2, \<dots>, numTuples*sizeTuples\<close>.
  The 50-row measurement insert built by the constructor uses \<open>$1\<close> to \<open>$300\<close>.
\<close>

theorem generateBatchInsert_placeholders:
  assumes "1 \<le> numTuples" and "1 \<le> sizeTuples"
  shows "generateBatchInsert numTuples sizeTuples
           = join (map (\<lambda>i. ''($'' @ join (map numToString
                                  [i * sizeTuples + 1 ..< (i + 1) * sizeTuples + 1]) '', $'' @ '')'')
                   [0..<numTuples]) [CHR '','', CHR 0x0A]
         \<and> placeholders (generateBatchInsert numTuples sizeTuples)
             = [1 ..< numTuples * sizeTuples + 1]
         \<and> placeholders insertMeasurementBatchedN = [1 ..< 301]"
proof -
  have "placeholders (generateBatchInsert numTuples sizeTuples) = [1 ..< numTuples * sizeTuples + 1]"
    using generateBatchInsert_placeholders_in_text [OF assms, of "[]" "[]"] by simp
  then show ?thesis
    using insertMeasurementBatchedN_placeholders generateBatchInsert_eq [of numTuples sizeTuples]
    by (simp add: tupleGroup_def [abs_def])
qed

theorem generateBatchInsert_placeholders_witness:
  "(1::nat) \<le> 2 \<and> (1::nat) \<le> 3
   \<and> generateBatchInsert 2 3 = ''($1, $2, $3),'' @ [CHR 0x0A] @ ''($4, $5, $6)''
   \<and> placeholders (generateBatchInsert 2 3) = [1, 2, 3, 4, 5, 6]"
proof -
  have h: "(1::nat) \<le> 2" "(1::nat) \<le> 3" by simp_all
  have s: "generateBatchInsert 2 3 = ''($1, $2, $3),'' @ [CHR 0x0A] @ ''($4, $5, $6)''"
    by code_simp
  have u: "[1 ..< 2 * 3 + 1] = [1, 2, 3, 4, 5, 6::nat]"
    by code_simp
  have "placeholders (generateBatchInsert 2 3) = [1 ..< 2 * 3 + 1]"
    by (rule conjunct1 [OF conjunct2 [OF generateBatchInsert_placeholders [OF h]]])
  with s u h show ?thesis by (simp only: simp_thms)
qed

subsection \<open>Cache-validity token\<close>



















subsection \<open>Commit-message filter\<close>

lemma signedOffBy_eq:
  "signedOffBy = 0x53 # [0x69, 0x67, 0x6E, 0x65, 0x64, 0x2D, 0x6F, 0x66, 0x66, 0x2D, 0x62, 0x79, 0x3A]"
  by (simp add: signedOffBy_def str_def)

lemma removeSignedOffBy_Nil: "removeSignedOffBy [] = []"
  by (subst removeSignedOffBy.simps) (simp add: signedOffBy_eq)

lemma removeSignedOffBy_keep:
  "\<not> prefix signedOffBy (c # cs) \<Longrightarrow> removeSignedOffBy (c # cs) = c # removeSignedOffBy cs"
  by (subst removeSignedOffBy.simps) simp

lemma removeSignedOffBy_drop:
  "prefix signedOffBy s \<Longrightarrow>
   removeSignedOffBy s
     = removeSignedOffBy (dropWhile (\<lambda>c. \<not> isLineTerminator c) (drop (length signedOffBy) s))"
  by (subst removeSignedOffBy.simps) simp

text \<open>After a removed match the text goes on with a line terminator, or ends.\<close>

lemma removeSignedOffBy_after_match:
  "removeSignedOffBy (dropWhile (\<lambda>c. \<not> isLineTerminator c) u) = []
   \<or> isLineTerminator (hd (removeSignedOffBy (dropWhile (\<lambda>c. \<not> isLineTerminator c) u)))"
proof -
  define d where "d = dropWhile (\<lambda>c. \<not> isLineTerminator c) u"
  have "removeSignedOffBy d = [] \<or> isLineTerminator (hd (removeSignedOffBy d))"
  proof (cases d)
    case Nil
    then show ?thesis by (simp add: removeSignedOffBy_Nil)
  next
    case (Cons l u')
    then have "d \<noteq> []" by simp
    then have "isLineTerminator (hd d)"
      unfolding d_def using hd_dropWhile [of "\<lambda>c. \<not> isLineTerminator c" u] by blast
    with Cons have l: "isLineTerminator l" by simp
    then have "l \<noteq> 0x53"
      by (auto simp: isLineTerminator_def)
    then have "\<not> prefix signedOffBy (l # u')"
      by (simp add: signedOffBy_eq)
    then show ?thesis
      using Cons l by (simp add: removeSignedOffBy_keep)
  qed
  then show ?thesis by (simp only: d_def)
qed

lemma removeSignedOffBy_hd:
  "removeSignedOffBy s = b # r \<Longrightarrow> isLineTerminator b \<or> (\<exists>cs. s = b # cs)"
proof (induction s rule: removeSignedOffBy.induct)
  case (1 s)
  show ?case
  proof (cases "prefix signedOffBy s")
    case True
    then show ?thesis
      using "1.prems" removeSignedOffBy_after_match [of "drop (length signedOffBy) s"]
      by (simp add: removeSignedOffBy_drop)
  next
    case False
    then show ?thesis
      using "1.prems" by (cases s) (simp_all add: removeSignedOffBy_Nil removeSignedOffBy_keep)
  qed
qed

lemma removeSignedOffBy_prefix:
  "prefix p (removeSignedOffBy s) \<Longrightarrow> \<forall>c \<in> set p. \<not> isLineTerminator c \<and> c \<noteq> 0x53 \<Longrightarrow>
   prefix p s"
proof (induction p arbitrary: s)
  case Nil
  then show ?case by simp
next
  case (Cons x p)
  from Cons.prems(1) obtain r where r: "removeSignedOffBy s = x # r" and pr: "prefix p r"
    by (cases "removeSignedOffBy s") auto
  from Cons.prems(2) have x: "\<not> isLineTerminator x" "x \<noteq> 0x53" by simp_all
  from removeSignedOffBy_hd [OF r] x obtain cs where s: "s = x # cs" by blast
  have "\<not> prefix signedOffBy (x # cs)"
    using x by (simp add: signedOffBy_eq)
  with r s have "r = removeSignedOffBy cs"
    by (simp add: removeSignedOffBy_keep)
  with pr Cons.IH [of cs] Cons.prems(2) have "prefix p cs" by simp
  with s show ?case by simp
qed

lemma sublist_Cons_iff: "sublist p (c # r) \<longleftrightarrow> prefix p (c # r) \<or> sublist p r"
  by (rule sublist_Cons_right)

lemma removeSignedOffBy_no_match: "\<not> sublist signedOffBy (removeSignedOffBy s)"
proof (induction s rule: removeSignedOffBy.induct)
  case (1 s)
  show ?case
  proof (cases "prefix signedOffBy s")
    case True
    from "1.IH"(1) [OF True] show ?thesis
      by (subst removeSignedOffBy_drop [OF True])
  next
    case False
    show ?thesis
    proof (cases s)
      case Nil
      have "signedOffBy \<noteq> []" by (simp add: signedOffBy_eq)
      with Nil show ?thesis by (simp add: removeSignedOffBy_Nil)
    next
      case (Cons c cs)
      from "1.IH"(2) [OF False Cons]
      have ih: "\<not> sublist signedOffBy (removeSignedOffBy cs)" .
      have "\<not> prefix signedOffBy (c # removeSignedOffBy cs)"
      proof
        assume p: "prefix signedOffBy (c # removeSignedOffBy cs)"
        then have c: "c = 0x53"
          and t: "prefix [0x69, 0x67, 0x6E, 0x65, 0x64, 0x2D, 0x6F, 0x66, 0x66, 0x2D, 0x62, 0x79, 0x3A]
                   (removeSignedOffBy cs)"
          unfolding signedOffBy_eq by (simp_all only: Cons_prefix_Cons)
        have "\<forall>c \<in> set [0x69, 0x67, 0x6E, 0x65, 0x64, 0x2D, 0x6F, 0x66, 0x66, 0x2D, 0x62, 0x79, 0x3A :: 16 word].
                \<not> isLineTerminator c \<and> c \<noteq> 0x53"
          by (simp add: isLineTerminator_def)
        from removeSignedOffBy_prefix [OF t this]
        have "prefix [0x69, 0x67, 0x6E, 0x65, 0x64, 0x2D, 0x6F, 0x66, 0x66, 0x2D, 0x62, 0x79, 0x3A] cs" .
        with c have "prefix signedOffBy (c # cs)"
          unfolding signedOffBy_eq by (simp only: Cons_prefix_Cons simp_thms)
        with False Cons show False by simp
      qed
      with ih have "\<not> sublist signedOffBy (c # removeSignedOffBy cs)"
        by (simp only: sublist_Cons_iff simp_thms)
      moreover have "removeSignedOffBy s = c # removeSignedOffBy cs"
        using False Cons removeSignedOffBy_keep [of c cs] by simp
      ultimately show ?thesis by simp
    qed
  qed
qed

lemma replaceAll_Nil: "replaceAll backslashN rep [] = []"
  by (subst replaceAll.simps) (simp add: backslashN_def)

lemma replaceAll_single: "replaceAll backslashN rep [a] = [a]"
  by (subst replaceAll.simps) (simp add: backslashN_def replaceAll_Nil [unfolded backslashN_def])

lemma replaceAll_hit: "replaceAll backslashN rep (0x5C # 0x6E # cs) = rep @ replaceAll backslashN rep cs"
  by (subst replaceAll.simps) (simp add: backslashN_def)

lemma replaceAll_miss:
  "\<not> (a = 0x5C \<and> b = 0x6E) \<Longrightarrow>
   replaceAll backslashN rep (a # b # cs) = a # replaceAll backslashN rep (b # cs)"
  by (subst replaceAll.simps) (auto simp: backslashN_def)

lemma replaceAll_hd:
  "replaceAll backslashN [0x0A] s = b # r \<Longrightarrow> b = 0x0A \<or> (\<exists>cs. s = b # cs)"
proof (cases s)
  assume r: "replaceAll backslashN [0x0A] s = b # r"
  case Nil
  with r show ?thesis by (simp add: replaceAll_Nil)
next
  case (Cons x xs)
  assume r: "replaceAll backslashN [0x0A] s = b # r"
  show ?thesis
  proof (cases xs)
    case Nil
    with Cons r show ?thesis by (simp add: replaceAll_single)
  next
    case (Cons y zs)
    with \<open>s = x # xs\<close> r show ?thesis
      by (cases "x = 0x5C \<and> y = 0x6E") (auto simp: replaceAll_hit replaceAll_miss)
  qed
qed

lemma backslashN_not_Nil: "backslashN \<noteq> []"
  by (simp add: backslashN_def)

lemma sublist_backslashN_Nil: "\<not> sublist backslashN []"
  by (simp add: backslashN_def)

lemma sublist_backslashN_Cons:
  "sublist backslashN (c # r) \<longleftrightarrow> (c = 0x5C \<and> (\<exists>r'. r = 0x6E # r')) \<or> sublist backslashN r"
  unfolding backslashN_def by (cases r) (auto simp: sublist_Cons_right)

lemma replaceAll_no_backslashN: "\<not> sublist backslashN (replaceAll backslashN [0x0A] s)"
proof (induction s rule: induct_list012)
  case 1
  then show ?case by (simp add: replaceAll_Nil sublist_backslashN_Nil backslashN_not_Nil)
next
  case (2 x)
  then show ?case by (simp add: replaceAll_single sublist_backslashN_Cons sublist_backslashN_Nil backslashN_not_Nil)
next
  case (3 x y zs)
  show ?case
  proof (cases "x = 0x5C \<and> y = 0x6E")
    case True
    from True 3(1) show ?thesis
      by (simp add: replaceAll_hit sublist_backslashN_Cons)
  next
    case False
    have "\<not> (x = 0x5C \<and> (\<exists>r'. replaceAll backslashN [0x0A] (y # zs) = 0x6E # r'))"
    proof
      assume a: "x = 0x5C \<and> (\<exists>r'. replaceAll backslashN [0x0A] (y # zs) = 0x6E # r')"
      then obtain r' where r: "replaceAll backslashN [0x0A] (y # zs) = 0x6E # r'" by blast
      from replaceAll_hd [OF r] have "y = 0x6E" by auto
      with a False show False by simp
    qed
    with False 3(2) show ?thesis
      by (simp add: replaceAll_miss sublist_backslashN_Cons)
  qed
qed

lemma sublist_drop_any: "\<not> sublist p s \<Longrightarrow> suffix u s \<Longrightarrow> \<not> sublist p u"
  by (meson sublist_order.order_trans suffix_imp_sublist)

lemma removeSignedOffBy_keeps_no_backslashN:
  "\<not> sublist backslashN s \<Longrightarrow> \<not> sublist backslashN (removeSignedOffBy s)"
proof (induction s rule: removeSignedOffBy.induct)
  case (1 s)
  show ?case
  proof (cases "prefix signedOffBy s")
    case True
    have "suffix (dropWhile (\<lambda>c. \<not> isLineTerminator c) (drop (length signedOffBy) s)) s"
      by (meson suffix_dropWhile suffix_drop suffix_order.order_trans)
    from sublist_drop_any [OF "1.prems" this] "1.IH"(1) [OF True] show ?thesis
      by (subst removeSignedOffBy_drop [OF True]) blast
  next
    case False
    show ?thesis
    proof (cases s)
      case Nil
      then show ?thesis by (simp add: removeSignedOffBy_Nil sublist_backslashN_Nil backslashN_not_Nil)
    next
      case (Cons c cs)
      from "1.prems" Cons have n: "\<not> sublist backslashN cs"
        and h: "\<not> (c = 0x5C \<and> (\<exists>r'. cs = 0x6E # r'))"
        by (simp_all add: sublist_backslashN_Cons)
      from "1.IH"(2) [OF False Cons n]
      have ih: "\<not> sublist backslashN (removeSignedOffBy cs)" .
      have "\<not> (c = 0x5C \<and> (\<exists>r'. removeSignedOffBy cs = 0x6E # r'))"
      proof
        assume a: "c = 0x5C \<and> (\<exists>r'. removeSignedOffBy cs = 0x6E # r')"
        then obtain r' where r: "removeSignedOffBy cs = 0x6E # r'" by blast
        have "\<not> isLineTerminator 0x6E" by (simp add: isLineTerminator_def)
        with removeSignedOffBy_hd [OF r] obtain cs' where "cs = 0x6E # cs'" by blast
        with a h show False by simp
      qed
      with ih have "\<not> sublist backslashN (c # removeSignedOffBy cs)"
        by (simp add: sublist_backslashN_Cons)
      moreover have "removeSignedOffBy s = c # removeSignedOffBy cs"
        using False Cons removeSignedOffBy_keep [of c cs] by simp
      ultimately show ?thesis by simp
    qed
  qed
qed

lemma trim_sublist: "sublist (trim s) s"
proof -
  have "prefix (rev (dropWhile isWhiteSpace (rev (dropWhile isWhiteSpace s)))) (dropWhile isWhiteSpace s)"
    by (metis suffix_dropWhile suffix_to_prefix rev_rev_ident)
  moreover have "suffix (dropWhile isWhiteSpace s) s"
    by (rule suffix_dropWhile)
  ultimately show ?thesis
    unfolding trim_def
    by (meson prefix_imp_sublist suffix_imp_sublist sublist_order.order_trans)
qed

lemma trim_ends:
  "trim s = [] \<or> (\<not> isWhiteSpace (hd (trim s)) \<and> \<not> isWhiteSpace (last (trim s)))"
proof (cases "trim s = []")
  case True
  then show ?thesis by simp
next
  case False
  define d where "d = dropWhile isWhiteSpace s"
  define e where "e = dropWhile isWhiteSpace (rev d)"
  have t: "trim s = rev e" by (simp add: trim_def d_def e_def)
  with False have e: "e \<noteq> []" by simp
  then have "\<not> isWhiteSpace (hd e)"
    unfolding e_def using hd_dropWhile by blast
  then have l: "\<not> isWhiteSpace (last (trim s))"
    using e t by (simp add: last_rev)
  have "suffix e (rev d)" unfolding e_def by (rule suffix_dropWhile)
  then have "prefix (rev e) d"
    by (metis suffix_to_prefix rev_rev_ident)
  with e have d: "d \<noteq> []" and "hd (rev e) = hd d"
    by (auto simp: prefix_def)
  moreover from d have "\<not> isWhiteSpace (hd d)"
    unfolding d_def using hd_dropWhile by blast
  ultimately show ?thesis using l t by simp
qed

lemma signedOffBy_no_terminator: "c \<in> set signedOffBy \<Longrightarrow> \<not> isLineTerminator c"
  by (auto simp: signedOffBy_eq isLineTerminator_def)

lemma dropWhile_line:
  assumes "\<forall>c \<in> set r. \<not> isLineTerminator c" and "u = [] \<or> isLineTerminator (hd u)"
  shows "dropWhile (\<lambda>c. \<not> isLineTerminator c) (r @ u) = u"
proof -
  from assms(2) have "dropWhile (\<lambda>c. \<not> isLineTerminator c) u = u"
    by (cases u) auto
  with assms(1) show ?thesis by (simp add: dropWhile_append3 dropWhile_append)
qed

lemma removeSignedOffBy_match:
  assumes "\<forall>c \<in> set r. \<not> isLineTerminator c" and "u = [] \<or> isLineTerminator (hd u)"
  shows "removeSignedOffBy (signedOffBy @ r @ u) = removeSignedOffBy u"
  using removeSignedOffBy_drop [of "signedOffBy @ r @ u"] dropWhile_line [OF assms]
  by simp

lemma removeSignedOffBy_none: "\<not> sublist signedOffBy s \<Longrightarrow> removeSignedOffBy s = s"
proof (induction s)
  case Nil
  show ?case by (rule removeSignedOffBy_Nil)
next
  case (Cons c cs)
  from Cons.prems have "\<not> prefix signedOffBy (c # cs)" and "\<not> sublist signedOffBy cs"
    by (simp_all add: sublist_Cons_right)
  with Cons.IH show ?case by (simp add: removeSignedOffBy_keep)
qed

lemma removeSignedOffBy_first:
  assumes "\<not> sublist signedOffBy (p @ butlast signedOffBy)"
    and "\<forall>c \<in> set r. \<not> isLineTerminator c" and "u = [] \<or> isLineTerminator (hd u)"
  shows "removeSignedOffBy (p @ signedOffBy @ r @ u) = p @ removeSignedOffBy u"
  using assms(1)
proof (induction p)
  case Nil
  show ?case using removeSignedOffBy_match [OF assms(2,3)] by simp
next
  case (Cons c p)
  have so: "signedOffBy = butlast signedOffBy @ [last signedOffBy]"
    by (simp add: signedOffBy_eq)
  have "\<not> prefix signedOffBy ((c # p) @ signedOffBy @ r @ u)"
  proof
    assume pre: "prefix signedOffBy ((c # p) @ signedOffBy @ r @ u)"
    have "prefix ((c # p) @ butlast signedOffBy) ((c # p) @ signedOffBy @ r @ u)"
      by (subst (2) so) simp
    moreover have "length signedOffBy \<le> length ((c # p) @ butlast signedOffBy)"
      by (simp add: signedOffBy_eq)
    ultimately have "prefix signedOffBy ((c # p) @ butlast signedOffBy)"
      using pre by (rule prefix_length_prefix [rotated])
    with Cons.prems show False by (blast dest: prefix_imp_sublist)
  qed
  moreover from Cons.prems have "\<not> sublist signedOffBy (p @ butlast signedOffBy)"
    by (simp add: sublist_Cons_right)
  ultimately show ?case using Cons.IH by (simp add: removeSignedOffBy_keep)
qed

lemma replaceAll_none: "\<not> sublist backslashN s \<Longrightarrow> replaceAll backslashN rep s = s"
proof (induction s rule: induct_list012)
  case 1
  show ?case by (rule replaceAll_Nil)
next
  case (2 x)
  show ?case by (rule replaceAll_single)
next
  case (3 x y zs)
  from 3(3) have "\<not> (x = 0x5C \<and> y = 0x6E)" and "\<not> sublist backslashN (y # zs)"
    by (auto simp: sublist_backslashN_Cons)
  with 3(2) show ?case by (simp add: replaceAll_miss)
qed

lemma replaceAll_first:
  "\<not> sublist backslashN (a @ [0x5C]) \<Longrightarrow>
   replaceAll backslashN rep (a @ backslashN @ b) = a @ rep @ replaceAll backslashN rep b"
proof (induction a)
  case Nil
  show ?case by (simp add: backslashN_def replaceAll_hit [unfolded backslashN_def])
next
  case (Cons c a)
  obtain y zs where yz: "a @ backslashN @ b = y # zs"
    by (cases "a @ backslashN @ b") (simp_all add: backslashN_def)
  have "\<not> (c = 0x5C \<and> y = 0x6E)"
  proof (cases a)
    case Nil
    with yz show ?thesis by (simp add: backslashN_def)
  next
    case (Cons a0 as)
    with yz have "y = a0" by simp
    with Cons Cons.prems show ?thesis by (auto simp: sublist_backslashN_Cons)
  qed
  moreover from Cons.prems have "\<not> sublist backslashN (a @ [0x5C])"
    by (simp add: sublist_backslashN_Cons)
  ultimately show ?case
    using Cons.IH replaceAll_miss [of c y rep zs] yz by simp
qed

lemma trim_exact:
  assumes "\<forall>c \<in> set w1. isWhiteSpace c" and "\<forall>c \<in> set w2. isWhiteSpace c"
    and "m = [] \<or> (\<not> isWhiteSpace (hd m) \<and> \<not> isWhiteSpace (last m))"
  shows "trim (w1 @ m @ w2) = m"
proof (cases "m = []")
  case True
  from assms(1,2) have dw: "dropWhile isWhiteSpace (w1 @ w2) = []" by simp
  show ?thesis unfolding trim_def True
    by (simp only: append_Nil dw rev.simps dropWhile.simps)
next
  case False
  with assms(3) have h: "\<not> isWhiteSpace (hd m)" and l: "\<not> isWhiteSpace (last m)" by simp_all
  from False h have "dropWhile isWhiteSpace (m @ w2) = m @ w2"
    by (cases m) simp_all
  with assms(1) have d: "dropWhile isWhiteSpace (w1 @ m @ w2) = m @ w2"
    by (simp add: dropWhile_append3 dropWhile_append)
  from False l have "dropWhile isWhiteSpace (rev m) = rev m"
    by (cases "rev m") (simp_all add: last_rev [symmetric] hd_rev)
  with assms(2) have "dropWhile isWhiteSpace (rev w2 @ rev m) = rev m"
    by (simp add: dropWhile_append)
  with d show ?thesis by (simp add: trim_def)
qed

text \<open>
  Claim C7, as stated, fails. The filter does not strip the lines that have a match of
  \<^verbatim>\<open>/Signed-off-by:.*/\<close>: it removes the match only, so that the text before the match on
  the same line stays, and so does the line terminator after it; and it replaces the
  backslash-n sequences before it removes the matches, not after, so that a match ends at
  a backslash-n.
\<close>

theorem filterCommitMessage_keeps_rest_of_line:
  "filterCommitMessage reviewedMessage = str ''Reviewed by B.''
   \<and> filterAsStated reviewedMessage = []
   \<and> filterCommitMessage threeLines = str ''a'' @ [0x0A, 0x0A] @ str ''b''
   \<and> filterAsStated threeLines = str ''a'' @ [0x0A] @ str ''b''
   \<and> filterCommitMessage signedThenText = str ''important''
   \<and> filterAsStated signedThenText = []"
  by code_simp

text \<open>
  Claim C7, amended. The filter first replaces every backslash-n sequence by a line feed,
  from left to right; then removes every match of \<^verbatim>\<open>/Signed-off-by:.*/\<close>, which is the text
  from an occurrence of \<^verbatim>\<open>Signed-off-by:\<close> up to the next line terminator or the end (the
  text before the first occurrence stays, and the filter goes on with the line
  terminator); then removes the white space at both ends. Its result contains no
  occurrence of \<^verbatim>\<open>Signed-off-by:\<close>, no backslash-n sequence, and neither starts nor ends
  with white space.
\<close>

theorem filterCommitMessage_strips:
  "filterCommitMessage msg = trim (removeSignedOffBy (replaceAll backslashN [0x0A] msg))
   \<and> \<not> sublist signedOffBy (filterCommitMessage msg)
   \<and> \<not> sublist backslashN (filterCommitMessage msg)
   \<and> (filterCommitMessage msg = []
       \<or> (\<not> isWhiteSpace (hd (filterCommitMessage msg))
           \<and> \<not> isWhiteSpace (last (filterCommitMessage msg))))
   \<and> (\<not> sublist backslashN s \<longrightarrow> replaceAll backslashN [0x0A] s = s)
   \<and> (\<not> sublist backslashN (a @ [0x5C]) \<longrightarrow>
        replaceAll backslashN [0x0A] (a @ backslashN @ b)
          = a @ [0x0A] @ replaceAll backslashN [0x0A] b)
   \<and> (\<not> sublist signedOffBy s \<longrightarrow> removeSignedOffBy s = s)
   \<and> (\<not> sublist signedOffBy (p @ butlast signedOffBy)
        \<and> (\<forall>c \<in> set r. \<not> isLineTerminator c) \<and> (u = [] \<or> isLineTerminator (hd u)) \<longrightarrow>
        removeSignedOffBy (p @ signedOffBy @ r @ u) = p @ removeSignedOffBy u)
   \<and> ((\<forall>c \<in> set w1. isWhiteSpace c) \<and> (\<forall>c \<in> set w2. isWhiteSpace c)
        \<and> (m = [] \<or> (\<not> isWhiteSpace (hd m) \<and> \<not> isWhiteSpace (last m))) \<longrightarrow>
        trim (w1 @ m @ w2) = m)"
proof -
  let ?r = "removeSignedOffBy (replaceAll backslashN [0x0A] msg)"
  have f: "filterCommitMessage msg = trim ?r"
    by (simp add: filterCommitMessage_def backslashN_def)
  have "\<not> sublist signedOffBy ?r" by (rule removeSignedOffBy_no_match)
  then have a: "\<not> sublist signedOffBy (trim ?r)"
    using trim_sublist [of ?r] by (meson sublist_order.order_trans)
  have "\<not> sublist backslashN ?r"
    by (rule removeSignedOffBy_keeps_no_backslashN) (rule replaceAll_no_backslashN)
  then have b: "\<not> sublist backslashN (trim ?r)"
    using trim_sublist [of ?r] by (meson sublist_order.order_trans)
  from f a b trim_ends [of ?r]
  have 1: "filterCommitMessage msg = trim ?r
   \<and> \<not> sublist signedOffBy (filterCommitMessage msg)
   \<and> \<not> sublist backslashN (filterCommitMessage msg)
   \<and> (filterCommitMessage msg = []
       \<or> (\<not> isWhiteSpace (hd (filterCommitMessage msg))
           \<and> \<not> isWhiteSpace (last (filterCommitMessage msg))))" by simp
  from 1 replaceAll_none [of s "[0x0A]"] replaceAll_first [of a "[0x0A]" b]
    removeSignedOffBy_none [of s] removeSignedOffBy_first [of p r u] trim_exact [of w1 w2 m]
  show ?thesis by blast
qed

theorem filterCommitMessage_strips_witness:
  "filterCommitMessage exampleMessage = str ''fix bug'' @ [0x0A, 0x0A, 0x0A] @ str ''more''
   \<and> \<not> sublist signedOffBy (filterCommitMessage exampleMessage)
   \<and> \<not> sublist backslashN (filterCommitMessage exampleMessage)
   \<and> \<not> isWhiteSpace (hd (filterCommitMessage exampleMessage))
   \<and> \<not> isWhiteSpace (last (filterCommitMessage exampleMessage))
   \<and> replaceAll backslashN [0x0A] (str ''fix'') = str ''fix''
   \<and> replaceAll backslashN [0x0A] (str ''a'' @ backslashN @ str ''b'')
       = str ''a'' @ [0x0A] @ replaceAll backslashN [0x0A] (str ''b'')
   \<and> removeSignedOffBy (str ''fix'') = str ''fix''
   \<and> removeSignedOffBy (str ''more '' @ signedOffBy @ str '' x'' @ [0x0A] @ str ''y'')
       = str ''more '' @ removeSignedOffBy ([0x0A] @ str ''y'')
   \<and> trim (str ''  '' @ str ''fix bug'' @ [0x0A]) = str ''fix bug''"
proof -
  have v: "filterCommitMessage exampleMessage = str ''fix bug'' @ [0x0A, 0x0A, 0x0A] @ str ''more''"
    by code_simp
  then have ne: "filterCommitMessage exampleMessage \<noteq> []"
    by (simp add: str_def)
  note t = filterCommitMessage_strips
  from t [of exampleMessage, THEN conjunct2, THEN conjunct1]
  have a: "\<not> sublist signedOffBy (filterCommitMessage exampleMessage)" .
  from t [of exampleMessage, THEN conjunct2, THEN conjunct2, THEN conjunct1]
  have b: "\<not> sublist backslashN (filterCommitMessage exampleMessage)" .
  from t [of exampleMessage, THEN conjunct2, THEN conjunct2, THEN conjunct2, THEN conjunct1] ne
  have c: "\<not> isWhiteSpace (hd (filterCommitMessage exampleMessage))
           \<and> \<not> isWhiteSpace (last (filterCommitMessage exampleMessage))" by blast
  note t4 = t [THEN conjunct2, THEN conjunct2, THEN conjunct2, THEN conjunct2]
  have h1: "\<not> sublist backslashN (str ''fix'')" by code_simp
  from t4 [THEN conjunct1, THEN mp, OF h1]
  have d: "replaceAll backslashN [0x0A] (str ''fix'') = str ''fix''" .
  have h2: "\<not> sublist backslashN (str ''a'' @ [0x5C])" by code_simp
  from t4 [THEN conjunct2, THEN conjunct1, THEN mp, OF h2]
  have e: "replaceAll backslashN [0x0A] (str ''a'' @ backslashN @ str ''b'')
       = str ''a'' @ [0x0A] @ replaceAll backslashN [0x0A] (str ''b'')" .
  have h3: "\<not> sublist signedOffBy (str ''fix'')" by code_simp
  from t4 [THEN conjunct2, THEN conjunct2, THEN conjunct1, THEN mp, OF h3]
  have f: "removeSignedOffBy (str ''fix'') = str ''fix''" .
  have h4: "\<not> sublist signedOffBy (str ''more '' @ butlast signedOffBy)
        \<and> (\<forall>c \<in> set (str '' x''). \<not> isLineTerminator c)
        \<and> ([0x0A] @ str ''y'' = [] \<or> isLineTerminator (hd ([0x0A] @ str ''y'')))"
    by code_simp
  from t4 [THEN conjunct2, THEN conjunct2, THEN conjunct2, THEN conjunct1, THEN mp, OF h4]
  have g: "removeSignedOffBy (str ''more '' @ signedOffBy @ str '' x'' @ [0x0A] @ str ''y'')
       = str ''more '' @ removeSignedOffBy ([0x0A] @ str ''y'')" .
  have h5: "(\<forall>c \<in> set (str ''  ''). isWhiteSpace c) \<and> (\<forall>c \<in> set [0x0A]. isWhiteSpace c)
        \<and> (str ''fix bug'' = []
            \<or> (\<not> isWhiteSpace (hd (str ''fix bug'')) \<and> \<not> isWhiteSpace (last (str ''fix bug''))))"
    by code_simp
  from t4 [THEN conjunct2, THEN conjunct2, THEN conjunct2, THEN conjunct2, THEN mp, OF h5]
  have i: "trim (str ''  '' @ str ''fix bug'' @ [0x0A]) = str ''fix bug''" .
  from v a b c d e f g i show ?thesis by (simp only: simp_thms)
qed
subsection \<open>Timeline response\<close>

lemma convertRow_data:
  assumes "data st = plotColumns base done"
  shows "\<exists>st'. convertRow base row st = Inr st' \<and> data st' = plotColumns base (done @ [row])"
  using assms
  by (cases base)
     (simp_all add: convertRow_def plotColumns_def push_def bindE_def Let_def
        baseCell_def changeCell_def onBase_def)

lemma convertRows_data:
  "data st = plotColumns base done \<Longrightarrow>
   \<exists>st'. convertRows base rowList st = Inr st' \<and> data st' = plotColumns base (done @ rowList)"
proof (induction rowList arbitrary: st "done")
  case Nil
  then show ?case by simp
next
  case (Cons row rowList)
  from convertRow_data [OF Cons.prems, of row]
  obtain st1 where s: "convertRow base row st = Inr st1"
    and d: "data st1 = plotColumns base (done @ [row])" by blast
  from Cons.IH [OF d] s show ?case by (simp add: bindE_def)
qed

lemma convertToTimelineResponse_data:
  "\<exists>r. convertToTimelineResponse rowList base change = Inr r \<and> data r = plotColumns base rowList"
  using convertRows_data [of _ base "[]" rowList]
  unfolding convertToTimelineResponse_def
  by (simp add: plotColumns_def)

text \<open>
  Claim C9. The conversion never fails. With a base branch name the plot data has 7 columns,
  without one 4; every column has one entry per row; the first column holds the time stamps.
  Without a base branch name the other three columns hold each row's interval and median.
  With one, a row of the base branch fills columns 1 to 3 and leaves \<open>null\<close> in columns
  4 to 6, and any other row fills columns 4 to 6 and leaves \<open>null\<close> in columns 1 to 3.
\<close>

theorem timeline_shape:
  "\<exists>r. convertToTimelineResponse rowList base change = Inr r
     \<and> length (data r) = (if base \<noteq> None then 7 else 4)
     \<and> (\<forall>col \<in> set (data r). length col = length rowList)
     \<and> data r ! 0 = map starttime rowList
     \<and> (base = None \<longrightarrow>
          data r = [map starttime rowList, map bci95low rowList, map median rowList, map bci95up rowList])
     \<and> (\<forall>b. base = Some b \<longrightarrow> (\<forall>i < length rowList.
          (if branch (rowList ! i) = b
           then data r ! 1 ! i = bci95low (rowList ! i) \<and> data r ! 2 ! i = median (rowList ! i) \<and>
                data r ! 3 ! i = bci95up (rowList ! i) \<and>
                data r ! 4 ! i = None \<and> data r ! 5 ! i = None \<and> data r ! 6 ! i = None
           else data r ! 1 ! i = None \<and> data r ! 2 ! i = None \<and> data r ! 3 ! i = None \<and>
                data r ! 4 ! i = bci95low (rowList ! i) \<and> data r ! 5 ! i = median (rowList ! i) \<and>
                data r ! 6 ! i = bci95up (rowList ! i))))"
proof -
  from convertToTimelineResponse_data [of rowList base change]
  obtain r where r: "convertToTimelineResponse rowList base change = Inr r"
    and d: "data r = plotColumns base rowList" by blast
  show ?thesis
    using r d
    by (auto simp: plotColumns_def baseCell_def changeCell_def onBase_def)
qed

theorem timeline_shape_witness:
  "\<exists>r. convertToTimelineResponse exampleRows (Some ''main'') (Some ''feature'') = Inr r
     \<and> length (data r) = 7
     \<and> data r ! 1 = [Some 4, None] \<and> data r ! 4 = [None, Some 6]
     \<and> data r ! 4 ! 0 = None \<and> data r ! 1 ! 1 = None"
proof -
  from timeline_shape [of exampleRows "Some ''main''" "Some ''feature''"]
  obtain r where r: "convertToTimelineResponse exampleRows (Some ''main'') (Some ''feature'') = Inr r"
    and l: "length (data r) = 7"
    and c: "\<forall>i < length exampleRows.
          (if branch (exampleRows ! i) = ''main''
           then data r ! 1 ! i = bci95low (exampleRows ! i) \<and> data r ! 2 ! i = median (exampleRows ! i) \<and>
                data r ! 3 ! i = bci95up (exampleRows ! i) \<and>
                data r ! 4 ! i = None \<and> data r ! 5 ! i = None \<and> data r ! 6 ! i = None
           else data r ! 1 ! i = None \<and> data r ! 2 ! i = None \<and> data r ! 3 ! i = None \<and>
                data r ! 4 ! i = bci95low (exampleRows ! i) \<and> data r ! 5 ! i = median (exampleRows ! i) \<and>
                data r ! 6 ! i = bci95up (exampleRows ! i))"
    by auto
  from c [rule_format, of 0] have c0: "data r ! 4 ! 0 = None"
    by (simp add: exampleRows_def)
  from c [rule_format, of 1] have c1: "data r ! 1 ! 1 = None"
    by (simp add: exampleRows_def)
  have "convertToTimelineResponse exampleRows (Some ''main'') (Some ''feature'')
        = Inr \<lparr>baseBranchName = Some ''main'', changeBranchName = Some ''feature'',
                baseTimestamp = Some 10, changeTimestamp = Some 20,
                data = [[Some 10, Some 20], [Some 4, None], [Some 5, None], [Some 6, None],
                        [None, Some 6], [None, Some 7], [None, Some 8]],
                sourceIds = [1, 2]\<rparr>"
    by (simp add: convertToTimelineResponse_def exampleRows_def convertRow_def push_def bindE_def)
  with r have "data r = [[Some 10, Some 20], [Some 4, None], [Some 5, None], [Some 6, None],
                        [None, Some 6], [None, Some 7], [None, Some 8]]"
    by auto
  with r l c0 c1 show ?thesis by simp
qed

subsection \<open>Interning cache\<close>

lemma bindS_Inr: "m s = (Inr v, s') \<Longrightarrow> bindS m f s = f v s'"
  by (simp add: bindS_def)

lemma bindS_Inl: "m s = (Inl e, s') \<Longrightarrow> bindS m f s = (Inl e, s')"
  by (simp add: bindS_def)

lemma catchS_Inr: "m s = (Inr v, s') \<Longrightarrow> catchS m h s = (Inr v, s')"
  by (simp add: catchS_def)

lemma catchS_Inl: "m s = (Inl e, s') \<Longrightarrow> catchS m h s = h e s'"
  by (simp add: catchS_def)

lemma recordCached_hit:
  "cache s cacheKey = Some row \<Longrightarrow>
   recordCached q cache cache_update cacheKey fetchQ insertQ s = (Inr row, s)"
  by (simp add: recordCached_def)

lemma recordCached_fetch_error:
  "cache s cacheKey = None \<Longrightarrow> runQuery q fetchQ s = (Inl e, s1) \<Longrightarrow>
   recordCached q cache cache_update cacheKey fetchQ insertQ s = (Inl e, s1)"
  by (simp add: recordCached_def bindS_Inl)

lemma recordCached_fetched:
  "cache s cacheKey = None \<Longrightarrow> runQuery q fetchQ s = (Inr r, s1) \<Longrightarrow> rowCount r \<noteq> 0 \<Longrightarrow>
   recordCached q cache cache_update cacheKey fetchQ insertQ s
     = (if rowCount r = 1
        then (Inr (firstRow r), cache_update (\<lambda>c. c(cacheKey \<mapsto> firstRow r)) s1)
        else (Inl AssertionError, s1))"
  by (simp add: recordCached_def bindS_def returnS_def throwS_def assert_def)

lemma recordCached_inserted:
  "cache s cacheKey = None \<Longrightarrow> runQuery q fetchQ s = (Inr r, s1) \<Longrightarrow> rowCount r = 0 \<Longrightarrow>
   runQuery q insertQ s1 = (Inr ri, s2) \<Longrightarrow>
   recordCached q cache cache_update cacheKey fetchQ insertQ s
     = (if rowCount ri = 1
        then (Inr (firstRow ri), cache_update (\<lambda>c. c(cacheKey \<mapsto> firstRow ri)) s2)
        else (Inl AssertionError, s2))"
  by (simp add: recordCached_def bindS_def catchS_def returnS_def throwS_def assert_def)

lemma recordCached_insert_error_refetch_error:
  "cache s cacheKey = None \<Longrightarrow> runQuery q fetchQ s = (Inr r, s1) \<Longrightarrow> rowCount r = 0 \<Longrightarrow>
   runQuery q insertQ s1 = (Inl e, s2) \<Longrightarrow> runQuery q fetchQ s2 = (Inl e', s3) \<Longrightarrow>
   recordCached q cache cache_update cacheKey fetchQ insertQ s = (Inl e', s3)"
  by (simp add: recordCached_def bindS_def catchS_def returnS_def throwS_def assert_def)

lemma recordCached_insert_error:
  "cache s cacheKey = None \<Longrightarrow> runQuery q fetchQ s = (Inr r, s1) \<Longrightarrow> rowCount r = 0 \<Longrightarrow>
   runQuery q insertQ s1 = (Inl e, s2) \<Longrightarrow> runQuery q fetchQ s2 = (Inr r2, s3) \<Longrightarrow>
   recordCached q cache cache_update cacheKey fetchQ insertQ s
     = (if rowCount r2 = 0 then (Inl e, s3)
        else if rowCount r2 = 1
        then (Inr (firstRow r2), cache_update (\<lambda>c. c(cacheKey \<mapsto> firstRow r2)) s3)
        else (Inl AssertionError, s3))"
  by (simp add: recordCached_def bindS_def catchS_def returnS_def throwS_def assert_def)

text \<open>
  Claim C2, as stated, fails: an error of the insert that is not a unique violation is not
  propagated when the second fetch finds a row. Here the insert is cancelled (SQLSTATE
  57014) and \<open>recordCached\<close> returns the row that the second fetch finds.
\<close>

theorem recordCached_drops_other_error:
  "executors cancelledInsert ''exe'' = None
   \<and> fst (runQuery scripted fetchExe cancelledInsert) = Inr \<lparr>rowCount = 0, rows = []\<rparr>
   \<and> fst (runQuery scripted insertExe (snd (runQuery scripted fetchExe cancelledInsert)))
       = Inl (DbError ''57014'')
   \<and> \<not> isUniqueViolationError (DbError ''57014'')
   \<and> fst (recordCached scripted executors executors_update ''exe'' fetchExe insertExe
            cancelledInsert) = Inr exeRow"
  by (simp add: cancelledInsert_def emptyDatabase_def recordCached_def runQuery_def scripted_def
      bindS_def catchS_def returnS_def throwS_def assert_def firstRow_def
      isUniqueViolationError_def)

text \<open>
  Claim C2, amended. \<open>recordCached\<close> returns the cached row when the key is cached.
  Otherwise, if the fetch returns one row, it caches and returns it. If the fetch returns no
  row it runs the insert, and caches and returns the one row of a successful insert. On
  any error of the insert, a unique violation or not, it runs the fetch again: if that
  yields exactly one row, it caches and returns the row; if it yields no row, the error
  of the insert is propagated to the caller.
\<close>

theorem recordCached_cases:
  "(cache s cacheKey = Some row \<longrightarrow>
      recordCached q cache cache_update cacheKey fetchQ insertQ s = (Inr row, s))
   \<and> (cache s cacheKey = None \<and> runQuery q fetchQ s = (Inr r, s1) \<and> rowCount r = 1 \<longrightarrow>
      recordCached q cache cache_update cacheKey fetchQ insertQ s
        = (Inr (firstRow r), cache_update (\<lambda>c. c(cacheKey \<mapsto> firstRow r)) s1))
   \<and> (cache s cacheKey = None \<and> runQuery q fetchQ s = (Inr r, s1) \<and> rowCount r = 0 \<longrightarrow>
        (runQuery q insertQ s1 = (Inr ri, s2) \<and> rowCount ri = 1 \<longrightarrow>
           recordCached q cache cache_update cacheKey fetchQ insertQ s
             = (Inr (firstRow ri), cache_update (\<lambda>c. c(cacheKey \<mapsto> firstRow ri)) s2))
      \<and> (runQuery q insertQ s1 = (Inl e, s2) \<and> runQuery q fetchQ s2 = (Inr r2, s3) \<longrightarrow>
           (rowCount r2 = 1 \<longrightarrow>
              recordCached q cache cache_update cacheKey fetchQ insertQ s
                = (Inr (firstRow r2), cache_update (\<lambda>c. c(cacheKey \<mapsto> firstRow r2)) s3))
         \<and> (rowCount r2 = 0 \<longrightarrow>
              recordCached q cache cache_update cacheKey fetchQ insertQ s = (Inl e, s3))))"
proof -
  have "rowCount r = 1 \<Longrightarrow> rowCount r \<noteq> 0" by simp
  then show ?thesis
    using recordCached_hit [of cache s cacheKey row q cache_update fetchQ insertQ]
      recordCached_fetched [of cache s cacheKey q fetchQ r s1 cache_update insertQ]
      recordCached_inserted [of cache s cacheKey q fetchQ r s1 insertQ ri s2 cache_update]
      recordCached_insert_error [of cache s cacheKey q fetchQ r s1 insertQ e s2 r2 s3 cache_update]
    by (simp (no_asm_simp))
qed

theorem recordCached_cases_witness:
  "executors cancelledInsert ''exe'' = None
   \<and> runQuery scripted fetchExe cancelledInsert
       = (Inr \<lparr>rowCount = 0, rows = []\<rparr>,
          emptyDatabase [Inl (DbError ''57014''), Inr \<lparr>rowCount = 1, rows = [exeRow]\<rparr>])
   \<and> runQuery scripted insertExe
         (emptyDatabase [Inl (DbError ''57014''), Inr \<lparr>rowCount = 1, rows = [exeRow]\<rparr>])
       = (Inl (DbError ''57014''), emptyDatabase [Inr \<lparr>rowCount = 1, rows = [exeRow]\<rparr>])
   \<and> runQuery scripted fetchExe (emptyDatabase [Inr \<lparr>rowCount = 1, rows = [exeRow]\<rparr>])
       = (Inr \<lparr>rowCount = 1, rows = [exeRow]\<rparr>, emptyDatabase [])
   \<and> recordCached scripted executors executors_update ''exe'' fetchExe insertExe cancelledInsert
       = (Inr exeRow, executors_update (\<lambda>c. c(''exe'' \<mapsto> exeRow)) (emptyDatabase []))"
proof -
  have a: "executors cancelledInsert ''exe'' = None"
    by (simp add: cancelledInsert_def emptyDatabase_def)
  have b: "runQuery scripted fetchExe cancelledInsert
       = (Inr \<lparr>rowCount = 0, rows = []\<rparr>,
          emptyDatabase [Inl (DbError ''57014''), Inr \<lparr>rowCount = 1, rows = [exeRow]\<rparr>])"
    by (simp add: cancelledInsert_def emptyDatabase_def runQuery_def scripted_def)
  have c: "runQuery scripted insertExe
         (emptyDatabase [Inl (DbError ''57014''), Inr \<lparr>rowCount = 1, rows = [exeRow]\<rparr>])
       = (Inl (DbError ''57014''), emptyDatabase [Inr \<lparr>rowCount = 1, rows = [exeRow]\<rparr>])"
    by (simp add: emptyDatabase_def runQuery_def scripted_def)
  have d: "runQuery scripted fetchExe (emptyDatabase [Inr \<lparr>rowCount = 1, rows = [exeRow]\<rparr>])
       = (Inr \<lparr>rowCount = 1, rows = [exeRow]\<rparr>, emptyDatabase [])"
    by (simp add: emptyDatabase_def runQuery_def scripted_def)
  have f: "firstRow \<lparr>rowCount = 1, rows = [exeRow]\<rparr> = exeRow"
    by (simp add: firstRow_def)
  from recordCached_cases [where cache = executors and s = cancelledInsert
      and cacheKey = "''exe''" and q = scripted and cache_update = executors_update
      and fetchQ = fetchExe and insertQ = insertExe and r = "\<lparr>rowCount = 0, rows = []\<rparr>"
      and ?s1.0 = "emptyDatabase [Inl (DbError ''57014''), Inr \<lparr>rowCount = 1, rows = [exeRow]\<rparr>]"
      and e = "DbError ''57014''"
      and ?s2.0 = "emptyDatabase [Inr \<lparr>rowCount = 1, rows = [exeRow]\<rparr>]"
      and ?r2.0 = "\<lparr>rowCount = 1, rows = [exeRow]\<rparr>" and ?s3.0 = "emptyDatabase []"] a b c d f
  have "recordCached scripted executors executors_update ''exe'' fetchExe insertExe cancelledInsert
       = (Inr exeRow, executors_update (\<lambda>c. c(''exe'' \<mapsto> exeRow)) (emptyDatabase []))"
    by simp
  with a b c d show ?thesis by simp
qed

subsection \<open>Recording measurements\<close>

lemma keepsD: "keeps f m \<Longrightarrow> m s = (r, s') \<Longrightarrow> f s' = f s"
  by (auto simp: keeps_def dest: spec [of _ s])

lemma keeps_returnS: "keeps f (returnS v)"
  by (simp add: keeps_def returnS_def)

lemma keeps_throwS: "keeps f (throwS e)"
  by (simp add: keeps_def throwS_def)

lemma keeps_liftE: "keeps f (liftE r)"
  by (simp add: keeps_def liftE_def)

lemma keeps_bindS: "keeps f m \<Longrightarrow> (\<And>v. keeps f (g v)) \<Longrightarrow> keeps f (bindS m g)"
  by (auto simp: keeps_def bindS_def split: prod.splits sum.splits)
     (metis snd_conv)+

lemma keeps_catchS: "keeps f m \<Longrightarrow> (\<And>e. keeps f (h e)) \<Longrightarrow> keeps f (catchS m h)"
  by (auto simp: keeps_def catchS_def split: prod.splits sum.splits)
     (metis snd_conv)+

lemma keeps_if: "keeps f m \<Longrightarrow> keeps f n \<Longrightarrow> keeps f (if b then m else n)"
  by simp

lemma keeps_updater_runQuery: "keeps timelineUpdater (runQuery q cfg)"
  by (simp add: keeps_def runQuery_def split: prod.splits)

lemmas keeps_intros =
  keeps_returnS keeps_throwS keeps_liftE keeps_bindS keeps_catchS keeps_if

lemma keeps_updater_recordMeasurement: "keeps timelineUpdater (recordMeasurement q vs)"
  unfolding recordMeasurement_def by (intro keeps_intros keeps_updater_runQuery)

lemma keeps_updater_recordMeasurementBatched10:
  "keeps timelineUpdater (recordMeasurementBatched10 q vs)"
  unfolding recordMeasurementBatched10_def by (intro keeps_intros keeps_updater_runQuery)

lemma keeps_updater_recordMeasurementBatchedN:
  "keeps timelineUpdater (recordMeasurementBatchedN q vs)"
  unfolding recordMeasurementBatchedN_def by (intro keeps_intros keeps_updater_runQuery)

lemma updater_recordMeasurementsFromBatchLoop:
  "timelineUpdater (snd (recordMeasurementsFromBatchLoop q vs n s)) = timelineUpdater s"
proof (induction q vs n s rule: recordMeasurementsFromBatchLoop.induct)
  case (1 q vs n s)
  let ?m = "catchS (bindS (recordMeasurement q (take (6 * 1) vs)) (\<lambda>result. returnS (n + result)))
              (\<lambda>err. if \<not> isUniqueViolationError err then throwS err else returnS n)"
  have k: "keeps timelineUpdater ?m"
    by (intro keeps_intros keeps_updater_recordMeasurement)
  show ?case
  proof (cases "length vs > 0")
    case False
    then show ?thesis by (subst recordMeasurementsFromBatchLoop.simps) simp
  next
    case True
    obtain r s' where m: "?m s = (r, s')" by (cases "?m s")
    from keepsD [OF k m] have s': "timelineUpdater s' = timelineUpdater s" .
    show ?thesis
    proof (cases r)
      case (Inl e)
      with True m s' show ?thesis
        by (subst recordMeasurementsFromBatchLoop.simps) simp
    next
      case (Inr n')
      have "timelineUpdater (snd (recordMeasurementsFromBatchLoop q (drop (6 * 1) vs) n' s'))
            = timelineUpdater s'"
        using m Inr by (intro "1.IH" [OF True refl _ refl]) simp
      with Inr True m s' show ?thesis
        by (subst recordMeasurementsFromBatchLoop.simps) simp
    qed
  qed
qed

lemma keeps_updater_recordMeasurementsFromBatch:
  "keeps timelineUpdater (recordMeasurementsFromBatch q vs)"
  by (simp add: keeps_def recordMeasurementsFromBatch_def updater_recordMeasurementsFromBatchLoop)

lemma updater_batched10Loop:
  "timelineUpdater (snd (batched10Loop q vs n s)) = timelineUpdater s"
proof (induction q vs n s rule: batched10Loop.induct)
  case (1 q vs n s)
  let ?m = "catchS (bindS (recordMeasurementBatched10 q (take (6 * 10) vs))
                      (\<lambda>result. returnS (n + result)))
              (\<lambda>err. if isUniqueViolationError err
                      then bindS (recordMeasurementsFromBatch q (take (6 * 10) vs))
                             (\<lambda>k. returnS (n + k))
                      else returnS n)"
  have k: "keeps timelineUpdater ?m"
    by (intro keeps_intros keeps_updater_recordMeasurementBatched10
        keeps_updater_recordMeasurementsFromBatch)
  show ?case
  proof (cases "length vs \<ge> 6 * 10")
    case False
    then show ?thesis by (subst batched10Loop.simps) simp
  next
    case True
    obtain r s' where m: "?m s = (r, s')" by (cases "?m s")
    from keepsD [OF k m] have s': "timelineUpdater s' = timelineUpdater s" .
    show ?thesis
    proof (cases r)
      case (Inl e)
      with True m s' show ?thesis
        by (subst batched10Loop.simps) simp
    next
      case (Inr n')
      have "timelineUpdater (snd (batched10Loop q (drop (6 * 10) vs) n' s')) = timelineUpdater s'"
        using m Inr by (intro "1.IH" [OF True refl _ refl]) simp
      with Inr True m s' show ?thesis
        by (subst batched10Loop.simps) simp
    qed
  qed
qed

lemma keeps_updater_batched10Loop: "keeps timelineUpdater (batched10Loop q vs n)"
  by (simp add: keeps_def updater_batched10Loop)

lemma keeps_updater_insertBatchN: "keeps timelineUpdater (insertBatchN q l)"
  unfolding insertBatchN_def
  by (intro keeps_intros keeps_updater_recordMeasurementBatchedN
      keeps_updater_recordMeasurementsFromBatch)

lemma tupleOf_criterion:
  "tupleOf run trial cm d m = Inr (criterion, vs) \<Longrightarrow> \<exists>name. getProp criterion ''name'' = Inr name"
  by (cases criterion)
     (auto simp: tupleOf_def bindE_def Let_def split: option.splits sum.splits)

lemma notifyUpdater_ok:
  assumes "tupleOf run trial cm d m = Inr (criterion, vs)"
  shows "fst (notifyUpdater tc criterion vs s) = Inr ()"
    and "callsAdded s (snd (notifyUpdater tc criterion vs s))
           (if getProp criterion ''name'' = Inr (Str tc)
            then [(elem vs 0, elem vs 1, elem vs 4, elem vs 5)] else [])"
    and "conn (snd (notifyUpdater tc criterion vs s)) = conn s"
  using tupleOf_criterion [OF assms]
  by (auto simp: notifyUpdater_def callsAdded_def addValue_def split: option.splits)

lemma recordTuple_error:
  "tupleOf run trial cm d m = Inl e \<Longrightarrow>
   recordTuple q tc run trial cm availableMs d m l s = (Inl e, s)"
  by (simp add: recordTuple_def bindS_def liftE_def)

lemma recordTuple_skip:
  "tupleOf run trial cm d m = Inr (criterion, vs) \<Longrightarrow> alreadyRecorded availableMs vs \<Longrightarrow>
   recordTuple q tc run trial cm availableMs d m l s = (Inr l, s)"
  by (simp add: recordTuple_def bindS_def liftE_def returnS_def)

lemma recordTuple_accept:
  assumes "tupleOf run trial cm d m = Inr (criterion, vs)" and "\<not> alreadyRecorded availableMs vs"
  shows "recordTuple q tc run trial cm availableMs d m l s
         = insertBatchN q (l\<lparr>lBatchedMs := lBatchedMs l + 1, lBatchedValues := lBatchedValues l @ vs\<rparr>)
             (snd (notifyUpdater tc criterion vs s))"
proof -
  obtain s1 where n: "notifyUpdater tc criterion vs s = (Inr (), s1)"
    using notifyUpdater_ok(1) [OF assms(1), of tc s]
    by (cases "notifyUpdater tc criterion vs s") auto
  with assms show ?thesis
    by (simp add: recordTuple_def bindS_def liftE_def)
qed

lemma jsGe_Num: "jsGe (Num a) (Num b) \<longleftrightarrow> b \<le> a"
  by (simp add: jsGe_def finLe_def)

lemma alreadyRecorded_iff:
  "alreadyRecorded availableMs [runId, trialId, Num invocation, Num ite, criterionId, v]
   \<longleftrightarrow> (\<exists>r c maxIte. availableMs (toString runId) = Some r \<and> r (toString criterionId) = Some c
          \<and> c (toString (Num invocation)) = Some maxIte \<and> jsGe maxIte (Num ite))"
  by (auto simp: alreadyRecorded_def elem_def split: option.splits)

lemma recordTuple_skipped:
  "skipped run trial cm availableMs d m \<Longrightarrow>
   recordTuple q tc run trial cm availableMs d m l s = (Inr l, s)"
  by (auto simp: skipped_def recordTuple_skip split: sum.splits)

lemma tupleOf_dp_m [simp]: "tupleOf run trial cm (d\<lparr>dp_m := x\<rparr>) m = tupleOf run trial cm d m"
  by (simp add: tupleOf_def split: option.splits)

lemma recordTuple_dp_m [simp]:
  "recordTuple q tc run trial cm availableMs (d\<lparr>dp_m := x\<rparr>) m = recordTuple q tc run trial cm availableMs d m"
  by (simp add: recordTuple_def fun_eq_iff)

lemma measuresLoop_dp_m [simp]:
  "measuresLoop q tc run trial cm availableMs (d\<lparr>dp_m := x\<rparr>) ms l s
   = measuresLoop q tc run trial cm availableMs d ms l s"
  by (induction ms arbitrary: l s) (simp_all split: prod.splits sum.splits)

lemma measuresLoop_filter:
  "measuresLoop q tc run trial cm availableMs d
     (filter (\<lambda>m. \<not> skipped run trial cm availableMs d m) ms) l s
   = measuresLoop q tc run trial cm availableMs d ms l s"
  by (induction ms arbitrary: l s)
     (simp_all add: recordTuple_skipped split: prod.splits sum.splits)

lemma dataPointsLoop_withoutSkipped:
  "dataPointsLoop q tc run trial cm availableMs (withoutSkipped run trial cm availableMs ds) l s
   = dataPointsLoop q tc run trial cm availableMs ds l s"
  by (induction ds arbitrary: l s)
     (simp_all add: withoutSkipped_def measuresLoop_filter split: prod.splits sum.splits)

lemma recordMeasurements_withoutSkipped:
  "recordMeasurements q tc (withoutSkipped run trial cm availableMs ds) run trial cm availableMs s
   = recordMeasurements q tc ds run trial cm availableMs s"
  by (simp add: recordMeasurements_def bindS_def dataPointsLoop_withoutSkipped)

lemma measuresLoop_tuplesLoop:
  "measuresLoop q tc run trial cm availableMs d ms l s
   = tuplesLoop q tc run trial cm availableMs (map (\<lambda>m. (d, m)) ms) l s"
  by (induction ms arbitrary: l s) (simp_all split: prod.splits sum.splits)

lemma tuplesLoop_append:
  "tuplesLoop q tc run trial cm availableMs (xs @ ys) l s
   = (case tuplesLoop q tc run trial cm availableMs xs l s of
        (Inl e, s') \<Rightarrow> (Inl e, s')
      | (Inr l', s') \<Rightarrow> tuplesLoop q tc run trial cm availableMs ys l' s')"
  by (induction xs arbitrary: l s) (simp_all split: prod.splits sum.splits)

lemma dataPointsLoop_tuplesLoop:
  "dataPointsLoop q tc run trial cm availableMs ds l s
   = tuplesLoop q tc run trial cm availableMs (measuresOf ds) l s"
  by (induction ds arbitrary: l s)
     (simp_all add: measuresOf_def tuplesLoop_append measuresLoop_tuplesLoop
        split: prod.splits sum.splits)

lemma storesAll_insert:
  "recordMeasurement storesAll vs s = (Inr (length vs div 6), s\<lparr>conn := conn s @ vs\<rparr>)"
  "recordMeasurementBatched10 storesAll vs s = (Inr (length vs div 6), s\<lparr>conn := conn s @ vs\<rparr>)"
  "recordMeasurementBatchedN storesAll vs s = (Inr (length vs div 6), s\<lparr>conn := conn s @ vs\<rparr>)"
  by (simp_all add: recordMeasurement_def recordMeasurementBatched10_def
      recordMeasurementBatchedN_def bindS_def runQuery_def storesAll_def returnS_def)

lemma fromBatchLoop_storesAll:
  "length vs = 6 * k \<Longrightarrow>
   recordMeasurementsFromBatchLoop storesAll vs n s = (Inr (n + k), s\<lparr>conn := conn s @ vs\<rparr>)"
proof (induction k arbitrary: vs n s)
  case 0
  then show ?case by (subst recordMeasurementsFromBatchLoop.simps) simp
next
  case (Suc k)
  from Suc.prems have t: "length (take 6 vs) div 6 = 1" and d: "length (drop 6 vs) = 6 * k"
    and pos: "0 < length vs" by simp_all
  have c: "(conn s @ take 6 vs) @ drop 6 vs = conn s @ vs" by simp
  from Suc.IH [OF d, of "n + 1" "s\<lparr>conn := conn s @ take 6 vs\<rparr>"] pos t show ?case
    by (subst recordMeasurementsFromBatchLoop.simps)
       (simp add: catchS_def bindS_def returnS_def storesAll_insert c del: append_assoc)
qed

lemma batched10Loop_storesAll:
  "length vs = 6 * k \<Longrightarrow> k div 10 = j \<Longrightarrow>
   batched10Loop storesAll vs n s
     = (Inr (n + 10 * j, drop (60 * j) vs), s\<lparr>conn := conn s @ take (60 * j) vs\<rparr>)"
proof (induction j arbitrary: vs k n s)
  case 0
  then have "\<not> 60 \<le> length vs" by simp
  then show ?case by (subst batched10Loop.simps) simp
next
  case (Suc j)
  from Suc.prems(2) have k: "10 \<le> k" by (rule_tac ccontr) (simp add: not_le)
  from Suc.prems(2) k have j: "(k - 10) div 10 = j" by (simp add: le_div_geq)
  from Suc.prems(1) k have l: "60 \<le> length vs" by simp
  then have t: "length (take 60 vs) div 6 = 10" by simp
  from Suc.prems(1) have d: "length (drop 60 vs) = 6 * (k - 10)" by simp
  have "batched10Loop storesAll vs n s
        = batched10Loop storesAll (drop 60 vs) (n + 10) (s\<lparr>conn := conn s @ take 60 vs\<rparr>)"
    using l t
    by (subst batched10Loop.simps)
       (simp add: catchS_def bindS_def returnS_def storesAll_insert)
  also have "\<dots> = (Inr (n + 10 + 10 * j, drop (60 * j) (drop 60 vs)),
                   s\<lparr>conn := (conn s @ take 60 vs) @ take (60 * j) (drop 60 vs)\<rparr>)"
    using Suc.IH [OF d j, of "n + 10" "s\<lparr>conn := conn s @ take 60 vs\<rparr>"] by simp
  also have "n + 10 + 10 * j = n + 10 * Suc j" by simp
  also have "drop (60 * j) (drop 60 vs) = drop (60 * Suc j) vs" by (simp add: add.commute)
  also have "(conn s @ take 60 vs) @ take (60 * j) (drop 60 vs) = conn s @ take (60 * Suc j) vs"
    by (simp add: take_add)
  finally show ?case .
qed

lemma flush_storesAll:
  assumes "length vs = 6 * k"
  shows "bindS (batched10Loop storesAll vs n) (\<lambda>(recorded, rest).
           bindS (recordMeasurementsFromBatch storesAll rest) (\<lambda>m. returnS (recorded + m))) s
         = (Inr (n + k), s\<lparr>conn := conn s @ vs\<rparr>)"
proof -
  let ?j = "k div 10"
  from assms have "length (drop (60 * ?j) vs) = 6 * (k - 10 * ?j)" by simp
  from fromBatchLoop_storesAll [OF this, of 0 "s\<lparr>conn := conn s @ take (60 * ?j) vs\<rparr>"]
  have "recordMeasurementsFromBatch storesAll (drop (60 * ?j) vs)
          (s\<lparr>conn := conn s @ take (60 * ?j) vs\<rparr>)
        = (Inr (k - 10 * ?j), s\<lparr>conn := conn s @ vs\<rparr>)"
    by (simp add: recordMeasurementsFromBatch_def)
  moreover have "n + 10 * ?j + (k - 10 * ?j) = n + k" by simp
  ultimately show ?thesis
    by (simp add: bindS_def returnS_def batched10Loop_storesAll [OF assms refl])
qed

lemma insertBatchN_storesAll:
  "insertBatchN storesAll l s
   = (if lBatchedMs l = batchN
      then (Inr (l\<lparr>lRecordedMeasurements := lRecordedMeasurements l + length (lBatchedValues l) div 6,
                   lBatchedValues := [], lBatchedMs := 0\<rparr>),
            s\<lparr>conn := conn s @ lBatchedValues l\<rparr>)
      else (Inr l, s))"
  by (simp add: insertBatchN_def catchS_def bindS_def returnS_def storesAll_insert)

lemma tupleOf_length: "tupleOf run trial cm d m = Inr (criterion, vs) \<Longrightarrow> length vs = 6"
  by (auto simp: tupleOf_def bindE_def Let_def split: option.splits sum.splits)

lemma acceptedTuples_Cons:
  "tupleOf run trial cm (fst dm) (snd dm) = Inr (criterion, vs) \<Longrightarrow>
   acceptedTuples run trial cm availableMs (dm # dms)
     = (if alreadyRecorded availableMs vs then [] else [vs])
       @ acceptedTuples run trial cm availableMs dms"
  by (simp add: acceptedTuples_def)

lemma tuplesLoop_storesAll:
  assumes "\<forall>dm \<in> set dms. \<exists>c vs. tupleOf run trial cm (fst dm) (snd dm) = Inr (c, vs)"
    and "length (lBatchedValues l) = 6 * lBatchedMs l" and "lBatchedMs l < batchN"
  shows "\<exists>l' s'. tuplesLoop storesAll tc run trial cm availableMs dms l s = (Inr l', s')
           \<and> length (lBatchedValues l') = 6 * lBatchedMs l' \<and> lBatchedMs l' < batchN
           \<and> conn s' @ lBatchedValues l'
               = conn s @ lBatchedValues l @ concat (acceptedTuples run trial cm availableMs dms)
           \<and> lRecordedMeasurements l' + lBatchedMs l'
               = lRecordedMeasurements l + lBatchedMs l
                 + length (acceptedTuples run trial cm availableMs dms)"
  using assms
proof (induction dms arbitrary: l s)
  case Nil
  then show ?case by (simp add: acceptedTuples_def)
next
  case (Cons dm dms)
  from Cons.prems(1) obtain c vs where t: "tupleOf run trial cm (fst dm) (snd dm) = Inr (c, vs)"
    by auto
  from Cons.prems(1) have rest: "\<forall>dm \<in> set dms. \<exists>c vs. tupleOf run trial cm (fst dm) (snd dm) = Inr (c, vs)"
    by simp
  note acc = acceptedTuples_Cons [OF t, of availableMs dms]
  show ?case
  proof (cases "alreadyRecorded availableMs vs")
    case True
    from Cons.IH [OF rest Cons.prems(2,3), of s] True acc
    show ?thesis by (simp add: recordTuple_skip [OF t True])
  next
    case False
    let ?s1 = "snd (notifyUpdater tc c vs s)"
    let ?l1 = "l\<lparr>lBatchedMs := lBatchedMs l + 1, lBatchedValues := lBatchedValues l @ vs\<rparr>"
    have c1: "conn ?s1 = conn s" by (rule notifyUpdater_ok(3) [OF t])
    have len: "length (lBatchedValues ?l1) = 6 * lBatchedMs ?l1"
      using Cons.prems(2) tupleOf_length [OF t] by simp
    have "\<exists>l2 s2. insertBatchN storesAll ?l1 ?s1 = (Inr l2, s2)
            \<and> length (lBatchedValues l2) = 6 * lBatchedMs l2 \<and> lBatchedMs l2 < batchN
            \<and> conn s2 @ lBatchedValues l2 = conn s @ lBatchedValues l @ vs
            \<and> lRecordedMeasurements l2 + lBatchedMs l2
                = lRecordedMeasurements l + lBatchedMs l + 1"
    proof (cases "lBatchedMs ?l1 = batchN")
      case True
      with len have "length (lBatchedValues ?l1) div 6 = batchN" by simp
      with True c1 show ?thesis
        by (simp add: insertBatchN_storesAll batchN_def)
    next
      case False
      with Cons.prems(3) len c1 show ?thesis
        by (simp add: insertBatchN_storesAll)
    qed
    then obtain l2 s2 where i: "insertBatchN storesAll ?l1 ?s1 = (Inr l2, s2)"
      and l2: "length (lBatchedValues l2) = 6 * lBatchedMs l2" "lBatchedMs l2 < batchN"
      and c2: "conn s2 @ lBatchedValues l2 = conn s @ lBatchedValues l @ vs"
      and n2: "lRecordedMeasurements l2 + lBatchedMs l2
               = lRecordedMeasurements l + lBatchedMs l + 1"
      by blast
    from Cons.IH [OF rest l2, of s2] obtain l' s' where
      r: "tuplesLoop storesAll tc run trial cm availableMs dms l2 s2 = (Inr l', s')"
      and l': "length (lBatchedValues l') = 6 * lBatchedMs l'" "lBatchedMs l' < batchN"
      and c': "conn s' @ lBatchedValues l'
               = conn s2 @ lBatchedValues l2 @ concat (acceptedTuples run trial cm availableMs dms)"
      and n': "lRecordedMeasurements l' + lBatchedMs l'
               = lRecordedMeasurements l2 + lBatchedMs l2
                 + length (acceptedTuples run trial cm availableMs dms)"
      by blast
    have "tuplesLoop storesAll tc run trial cm availableMs (dm # dms) l s = (Inr l', s')"
      using i r by (simp add: recordTuple_accept [OF t False])
    moreover have "conn s' @ lBatchedValues l'
               = conn s @ lBatchedValues l
                 @ concat (acceptedTuples run trial cm availableMs (dm # dms))"
    proof -
      have "conn s' @ lBatchedValues l'
            = (conn s2 @ lBatchedValues l2) @ concat (acceptedTuples run trial cm availableMs dms)"
        using c' by simp
      also have "\<dots> = (conn s @ lBatchedValues l @ vs)
                       @ concat (acceptedTuples run trial cm availableMs dms)"
        by (simp only: c2)
      finally show ?thesis using False by (simp add: acc)
    qed
    moreover have "lRecordedMeasurements l' + lBatchedMs l'
               = lRecordedMeasurements l + lBatchedMs l
                 + length (acceptedTuples run trial cm availableMs (dm # dms))"
      using n' n2 False acc by simp
    ultimately show ?thesis using l' by blast
  qed
qed

lemma recordMeasurements_storesAll:
  assumes "\<forall>dm \<in> set (measuresOf dataPoints).
             \<exists>c vs. tupleOf run trial cm (fst dm) (snd dm) = Inr (c, vs)"
  shows "fst (recordMeasurements storesAll tc dataPoints run trial cm availableMs s)
           = Inr (length (acceptedTuples run trial cm availableMs (measuresOf dataPoints)))
         \<and> conn (snd (recordMeasurements storesAll tc dataPoints run trial cm availableMs s))
             = conn s @ concat (acceptedTuples run trial cm availableMs (measuresOf dataPoints))"
proof -
  let ?l0 = "\<lparr>lRecordedMeasurements = 0, lBatchedMs = 0, lBatchedValues = []\<rparr>"
  from tuplesLoop_storesAll [OF assms, of ?l0 tc availableMs s] obtain l' s' where
    r: "tuplesLoop storesAll tc run trial cm availableMs (measuresOf dataPoints) ?l0 s = (Inr l', s')"
    and l': "length (lBatchedValues l') = 6 * lBatchedMs l'"
    and c': "conn s' @ lBatchedValues l'
             = conn s @ concat (acceptedTuples run trial cm availableMs (measuresOf dataPoints))"
    and n': "lRecordedMeasurements l' + lBatchedMs l'
             = length (acceptedTuples run trial cm availableMs (measuresOf dataPoints))"
    by (auto simp: batchN_def)
  have "recordMeasurements storesAll tc dataPoints run trial cm availableMs s
        = (Inr (lRecordedMeasurements l' + lBatchedMs l'), s'\<lparr>conn := conn s' @ lBatchedValues l'\<rparr>)"
    unfolding recordMeasurements_def dataPointsLoop_tuplesLoop
    by (simp add: flush_storesAll [OF l']
          bindS_Inr [of "tuplesLoop storesAll tc run trial cm availableMs (measuresOf dataPoints) ?l0"
                        s l' s', OF r])
  with c' n' show ?thesis by simp
qed

text \<open>
  Claim C4. A tuple is skipped if and only if the map of available measurements has an
  entry for its run, its criterion and its invocation whose stored iteration is at least
  the tuple's (by \<^verbatim>\<open>>=\<close>, which on two numbers is their order). A skipped tuple changes
  neither the local variables nor the state; any other tuple is appended to the batch,
  which is inserted when it holds 50 tuples. The whole of \<open>recordMeasurements\<close> does the same
  with and without the skipped measures, and on a database that accepts and keeps what it
  is given, it hands over exactly the tuples that are not skipped, each once and in their
  order, and returns their number.
\<close>

theorem skipped_iff_available:
  "(alreadyRecorded availableMs [runId, trialId, Num invocation, Num ite, criterionId, v]
    \<longleftrightarrow> (\<exists>r c maxIte. availableMs (toString runId) = Some r \<and> r (toString criterionId) = Some c
           \<and> c (toString (Num invocation)) = Some maxIte \<and> jsGe maxIte (Num ite)))
   \<and> (tupleOf run trial cm d m = Inr (criterion, vs) \<longrightarrow>
        (alreadyRecorded availableMs vs \<longrightarrow>
           recordTuple q tc run trial cm availableMs d m l s = (Inr l, s))
      \<and> (\<not> alreadyRecorded availableMs vs \<longrightarrow>
           recordTuple q tc run trial cm availableMs d m l s
             = insertBatchN q
                 (l\<lparr>lBatchedMs := lBatchedMs l + 1, lBatchedValues := lBatchedValues l @ vs\<rparr>)
                 (snd (notifyUpdater tc criterion vs s))
           \<and> conn (snd (notifyUpdater tc criterion vs s)) = conn s
           \<and> (lBatchedMs l + 1 \<noteq> batchN \<longrightarrow>
                recordTuple q tc run trial cm availableMs d m l s
                  = (Inr (l\<lparr>lBatchedMs := lBatchedMs l + 1,
                            lBatchedValues := lBatchedValues l @ vs\<rparr>),
                     snd (notifyUpdater tc criterion vs s)))))
   \<and> recordMeasurements q tc (withoutSkipped run trial cm availableMs dataPoints)
         run trial cm availableMs s
       = recordMeasurements q tc dataPoints run trial cm availableMs s
   \<and> (jsGe (Num stored) (Num ite) \<longleftrightarrow> ite \<le> stored)
   \<and> ((\<forall>dm \<in> set (measuresOf dataPoints).
          \<exists>c vs. tupleOf run trial cm (fst dm) (snd dm) = Inr (c, vs)) \<longrightarrow>
        fst (recordMeasurements storesAll tc dataPoints run trial cm availableMs s0)
          = Inr (length (acceptedTuples run trial cm availableMs (measuresOf dataPoints)))
        \<and> conn (snd (recordMeasurements storesAll tc dataPoints run trial cm availableMs s0))
            = conn s0 @ concat (acceptedTuples run trial cm availableMs (measuresOf dataPoints)))"
  using alreadyRecorded_iff [of availableMs runId trialId invocation ite criterionId v]
    recordTuple_skip [of run trial cm d m criterion vs availableMs q tc l s]
    recordTuple_accept [of run trial cm d m criterion vs availableMs q tc l s]
    notifyUpdater_ok(3) [of run trial cm d m criterion vs tc s]
    recordMeasurements_withoutSkipped [of q tc run trial cm availableMs dataPoints s]
    jsGe_Num [of stored ite]
    recordMeasurements_storesAll [of dataPoints run trial cm tc availableMs s0]
  by (simp add: insertBatchN_def returnS_def)

theorem skipped_iff_available_witness:
  "alreadyRecorded someAvailable [Num 1, Num 1, Num 1, Num 3, Num 1, Num 100]
   \<and> \<not> alreadyRecorded someAvailable [Num 1, Num 1, Num 1, Num 7, Num 1, Num 101]
   \<and> tupleOf row1 row1 (Some [0 \<mapsto> totalRow]) (twoDataPoints ! 0) \<lparr>m_c = 0, m_v = Num 100\<rparr>
       = Inr (totalRow, [Num 1, Num 1, Num 1, Num 3, Num 1, Num 100])
   \<and> recordTuple cancels10 ''total'' row1 row1 (Some [0 \<mapsto> totalRow]) someAvailable
         (twoDataPoints ! 0) \<lparr>m_c = 0, m_v = Num 100\<rparr>
         \<lparr>lRecordedMeasurements = 0, lBatchedMs = 0, lBatchedValues = []\<rparr> (emptyDatabase [])
       = (Inr \<lparr>lRecordedMeasurements = 0, lBatchedMs = 0, lBatchedValues = []\<rparr>, emptyDatabase [])
   \<and> tupleOf row1 row1 (Some [0 \<mapsto> totalRow]) (twoDataPoints ! 1) \<lparr>m_c = 0, m_v = Num 101\<rparr>
       = Inr (totalRow, [Num 1, Num 1, Num 1, Num 7, Num 1, Num 101])
   \<and> recordTuple cancels10 ''total'' row1 row1 (Some [0 \<mapsto> totalRow]) someAvailable
         (twoDataPoints ! 1) \<lparr>m_c = 0, m_v = Num 101\<rparr>
         \<lparr>lRecordedMeasurements = 0, lBatchedMs = 0, lBatchedValues = []\<rparr> (emptyDatabase [])
       = (Inr \<lparr>lRecordedMeasurements = 0, lBatchedMs = 1,
               lBatchedValues = [Num 1, Num 1, Num 1, Num 7, Num 1, Num 101]\<rparr>, emptyDatabase [])
   \<and> fst (recordMeasurements storesAll ''total'' twoDataPoints row1 row1 (Some [0 \<mapsto> totalRow])
            someAvailable (emptyDatabase []))
       = Inr 1
   \<and> conn (snd (recordMeasurements storesAll ''total'' twoDataPoints row1 row1
                   (Some [0 \<mapsto> totalRow]) someAvailable (emptyDatabase [])))
       = [Num 1, Num 1, Num 1, Num 7, Num 1, Num 101]"
proof -
  have n: "intToString 1 = ''1''"
    by code_simp
  have a: "alreadyRecorded someAvailable [Num 1, Num 1, Num 1, Num 3, Num 1, Num 100]"
    using skipped_iff_available [THEN conjunct1, of someAvailable "Num 1" "Num 1" 1 3 "Num 1" "Num 100"]
    by (simp add: n someAvailable_def jsGe_Num)
  have b: "\<not> alreadyRecorded someAvailable [Num 1, Num 1, Num 1, Num 7, Num 1, Num 101]"
    using skipped_iff_available [THEN conjunct1, of someAvailable "Num 1" "Num 1" 1 7 "Num 1" "Num 101"]
    by (simp add: n someAvailable_def jsGe_Num)
  have t0: "tupleOf row1 row1 (Some [0 \<mapsto> totalRow]) (twoDataPoints ! 0) \<lparr>m_c = 0, m_v = Num 100\<rparr>
       = Inr (totalRow, [Num 1, Num 1, Num 1, Num 3, Num 1, Num 100])"
    by (simp add: tupleOf_def twoDataPoints_def row1_def totalRow_def bindE_def)
  have t1: "tupleOf row1 row1 (Some [0 \<mapsto> totalRow]) (twoDataPoints ! 1) \<lparr>m_c = 0, m_v = Num 101\<rparr>
       = Inr (totalRow, [Num 1, Num 1, Num 1, Num 7, Num 1, Num 101])"
    by (simp add: tupleOf_def twoDataPoints_def row1_def totalRow_def bindE_def)
  have u: "snd (notifyUpdater ''total'' totalRow [Num 1, Num 1, Num 1, Num 7, Num 1, Num 101]
                 (emptyDatabase [])) = emptyDatabase []"
    by (simp add: notifyUpdater_def emptyDatabase_def)
  let ?l = "\<lparr>lRecordedMeasurements = 0, lBatchedMs = 0, lBatchedValues = []\<rparr>"
  have c: "recordTuple cancels10 ''total'' row1 row1 (Some [0 \<mapsto> totalRow]) someAvailable
         (twoDataPoints ! 0) \<lparr>m_c = 0, m_v = Num 100\<rparr> ?l (emptyDatabase [])
       = (Inr ?l, emptyDatabase [])"
    by (rule skipped_iff_available [THEN conjunct2, THEN conjunct1, rule_format, OF t0,
          THEN conjunct1, rule_format, OF a])
  have f: "lBatchedMs ?l + 1 \<noteq> batchN" by (simp add: batchN_def)
  have "recordTuple cancels10 ''total'' row1 row1 (Some [0 \<mapsto> totalRow]) someAvailable
         (twoDataPoints ! 1) \<lparr>m_c = 0, m_v = Num 101\<rparr> ?l (emptyDatabase [])
       = (Inr (?l\<lparr>lBatchedMs := lBatchedMs ?l + 1,
                   lBatchedValues := lBatchedValues ?l @ [Num 1, Num 1, Num 1, Num 7, Num 1, Num 101]\<rparr>),
          snd (notifyUpdater ''total'' totalRow [Num 1, Num 1, Num 1, Num 7, Num 1, Num 101]
                 (emptyDatabase [])))"
    by (rule skipped_iff_available [THEN conjunct2, THEN conjunct1, rule_format, OF t1,
          THEN conjunct2, rule_format, OF b, THEN conjunct2, THEN conjunct2, rule_format, OF f])
  then have d: "recordTuple cancels10 ''total'' row1 row1 (Some [0 \<mapsto> totalRow]) someAvailable
         (twoDataPoints ! 1) \<lparr>m_c = 0, m_v = Num 101\<rparr> ?l (emptyDatabase [])
       = (Inr \<lparr>lRecordedMeasurements = 0, lBatchedMs = 1,
               lBatchedValues = [Num 1, Num 1, Num 1, Num 7, Num 1, Num 101]\<rparr>, emptyDatabase [])"
    by (simp add: u)
  have ms: "measuresOf twoDataPoints
            = [(twoDataPoints ! 0, \<lparr>m_c = 0, m_v = Num 100\<rparr>),
               (twoDataPoints ! 1, \<lparr>m_c = 0, m_v = Num 101\<rparr>)]"
    by (simp add: measuresOf_def twoDataPoints_def)
  have h: "\<forall>dm \<in> set (measuresOf twoDataPoints).
             \<exists>c vs. tupleOf row1 row1 (Some [0 \<mapsto> totalRow]) (fst dm) (snd dm) = Inr (c, vs)"
    by (simp add: ms t0 t1 [unfolded One_nat_def])
  have acc: "acceptedTuples row1 row1 (Some [0 \<mapsto> totalRow]) someAvailable (measuresOf twoDataPoints)
             = [[Num 1, Num 1, Num 1, Num 7, Num 1, Num 101]]"
    by (simp add: acceptedTuples_def ms t0 t1 [unfolded One_nat_def] a b)
  from skipped_iff_available [THEN conjunct2, THEN conjunct2, THEN conjunct2, THEN conjunct2,
         THEN mp, OF h, of "''total''" someAvailable "emptyDatabase []"]
  have e: "fst (recordMeasurements storesAll ''total'' twoDataPoints row1 row1
                  (Some [0 \<mapsto> totalRow]) someAvailable (emptyDatabase []))
           = Inr 1"
    and f': "conn (snd (recordMeasurements storesAll ''total'' twoDataPoints row1 row1
                   (Some [0 \<mapsto> totalRow]) someAvailable (emptyDatabase [])))
           = [Num 1, Num 1, Num 1, Num 7, Num 1, Num 101]"
    by (simp_all add: acc emptyDatabase_def)
  from a b t0 t1 c d e f' show ?thesis by (simp only: simp_thms)
qed

lemma callsAdded_refl: "callsAdded s s []"
  by (simp add: callsAdded_def split: option.splits)

lemma callsAdded_trans:
  "callsAdded s s1 a \<Longrightarrow> callsAdded s1 s2 b \<Longrightarrow> callsAdded s s2 (a @ b)"
  by (auto simp: callsAdded_def split: option.splits)

lemma callsAdded_keeps:
  "keeps timelineUpdater m \<Longrightarrow> m s = (r, s') \<Longrightarrow> callsAdded s s' []"
  using keepsD [of timelineUpdater m s r s']
  by (auto simp: callsAdded_def split: option.splits)

lemma recordTuple_calls:
  assumes "recordTuple q tc run trial cm availableMs (fst dm) (snd dm) l s = (r, s')"
  shows "callsAdded s s' (expectedCall tc run trial cm availableMs dm)"
proof (cases "tupleOf run trial cm (fst dm) (snd dm)")
  case (Inl e)
  with assms recordTuple_error [OF Inl, of q tc availableMs l s] show ?thesis
    by (simp add: expectedCall_def callsAdded_refl)
next
  case (Inr cv)
  obtain criterion vs where cv: "cv = (criterion, vs)" by (cases cv)
  note t = Inr [unfolded cv]
  show ?thesis
  proof (cases "alreadyRecorded availableMs vs")
    case True
    with assms recordTuple_skip [OF t True, of q tc l s] t show ?thesis
      by (simp add: expectedCall_def callsAdded_refl)
  next
    case False
    let ?s1 = "snd (notifyUpdater tc criterion vs s)"
    let ?l1 = "l\<lparr>lBatchedMs := lBatchedMs l + 1, lBatchedValues := lBatchedValues l @ vs\<rparr>"
    from assms recordTuple_accept [OF t False, of q tc l s]
    have i: "insertBatchN q ?l1 ?s1 = (r, s')" by simp
    have "callsAdded ?s1 s' []"
      by (rule callsAdded_keeps [OF keeps_updater_insertBatchN i])
    with notifyUpdater_ok(2) [OF t, of s tc] callsAdded_trans [of s ?s1 _ s' "[]"]
    show ?thesis
      using t False by (simp add: expectedCall_def)
  qed
qed

lemma tuplesLoop_calls:
  "tuplesLoop q tc run trial cm availableMs dms l s = (r, s') \<Longrightarrow>
   \<exists>k \<le> length dms. callsAdded s s' (expectedCalls tc run trial cm availableMs (take k dms))
     \<and> (\<not> isl r \<longrightarrow> k = length dms)"
proof (induction dms arbitrary: l s)
  case Nil
  then show ?case by (auto simp: expectedCalls_def callsAdded_refl)
next
  case (Cons dm dms)
  obtain r1 s1 where t: "recordTuple q tc run trial cm availableMs (fst dm) (snd dm) l s = (r1, s1)"
    by (cases "recordTuple q tc run trial cm availableMs (fst dm) (snd dm) l s")
  note c1 = recordTuple_calls [OF t]
  show ?case
  proof (cases r1)
    case (Inl e)
    with Cons.prems t have "r = Inl e" "s' = s1" by simp_all
    with c1 show ?thesis
      by (intro exI [of _ 1]) (simp add: expectedCalls_def)
  next
    case (Inr l1)
    with Cons.prems t have "tuplesLoop q tc run trial cm availableMs dms l1 s1 = (r, s')"
      by simp
    from Cons.IH [OF this] obtain k where k: "k \<le> length dms"
      and c: "callsAdded s1 s' (expectedCalls tc run trial cm availableMs (take k dms))"
      and f: "\<not> isl r \<longrightarrow> k = length dms" by blast
    from callsAdded_trans [OF c1 c] k f show ?thesis
      by (intro exI [of _ "Suc k"]) (simp add: expectedCalls_def)
  qed
qed

lemma keeps_updater_after_loops:
  "keeps timelineUpdater
     (bindS (batched10Loop q (lBatchedValues l) (lRecordedMeasurements l)) (\<lambda>(recorded, rest).
      bindS (recordMeasurementsFromBatch q rest) (\<lambda>n. returnS (recorded + n))))"
  by (intro keeps_intros keeps_updater_batched10Loop)
     (auto intro!: keeps_intros keeps_updater_recordMeasurementsFromBatch)

text \<open>
  Claim C5. Whatever \<open>recordMeasurements\<close> returns, the calls of \<^verbatim>\<open>addValue\<close> it has made
  are those of the measures up to some point of the loop: one call, with the run, the
  trial, the criterion and the value of the tuple, for each measure that is not skipped and
  whose criterion has the name of the total criterion, in the order of the loop, and no
  other call. When it returns normally, these are the calls for all the measures. Without an
  updater (the timeline is disabled) there is none afterwards either.
\<close>

theorem addValue_calls:
  assumes "recordMeasurements q tc dataPoints run trial cm availableMs s = (r, s')"
  shows "\<exists>k \<le> length (measuresOf dataPoints).
           callsAdded s s' (expectedCalls tc run trial cm availableMs (take k (measuresOf dataPoints)))
           \<and> (\<not> isl r \<longrightarrow> k = length (measuresOf dataPoints))"
proof -
  let ?l0 = "\<lparr>lRecordedMeasurements = 0, lBatchedMs = 0, lBatchedValues = []\<rparr>"
  obtain r1 s1 where t: "tuplesLoop q tc run trial cm availableMs (measuresOf dataPoints) ?l0 s = (r1, s1)"
    by (cases "tuplesLoop q tc run trial cm availableMs (measuresOf dataPoints) ?l0 s")
  from tuplesLoop_calls [OF t] obtain k where k: "k \<le> length (measuresOf dataPoints)"
    and c: "callsAdded s s1 (expectedCalls tc run trial cm availableMs (take k (measuresOf dataPoints)))"
    and f: "\<not> isl r1 \<longrightarrow> k = length (measuresOf dataPoints)" by blast
  show ?thesis
  proof (cases r1)
    case (Inl e)
    with assms t have "r = Inl e" "s' = s1"
      by (simp_all add: recordMeasurements_def bindS_def dataPointsLoop_tuplesLoop)
    with k c show ?thesis by auto
  next
    case (Inr l)
    let ?m = "bindS (batched10Loop q (lBatchedValues l) (lRecordedMeasurements l)) (\<lambda>(recorded, rest).
                bindS (recordMeasurementsFromBatch q rest) (\<lambda>n. returnS (recorded + n)))"
    from assms t Inr have "?m s1 = (r, s')"
      by (simp add: recordMeasurements_def bindS_def dataPointsLoop_tuplesLoop)
    from callsAdded_keeps [OF keeps_updater_after_loops this] c
    have "callsAdded s s' (expectedCalls tc run trial cm availableMs (take k (measuresOf dataPoints)))"
      using callsAdded_trans by fastforce
    with k f Inr show ?thesis by auto
  qed
qed

theorem addValue_calls_witness:
  "recordMeasurements cancels10 ''total'' twoDataPoints row1 row1 (Some [0 \<mapsto> totalRow])
      someAvailable (withUpdater (emptyDatabase []))
     = (Inr 1, (withUpdater (emptyDatabase [Num 1, Num 1, Num 1, Num 7, Num 1, Num 101]))
          \<lparr>timelineUpdater := Some \<lparr>addValueCalls = [(Num 1, Num 1, Num 1, Num 101)],
                                    submitUpdateJobsCalls = 0\<rparr>\<rparr>)
   \<and> expectedCalls ''total'' row1 row1 (Some [0 \<mapsto> totalRow]) someAvailable
        (measuresOf twoDataPoints) = [(Num 1, Num 1, Num 1, Num 101)]
   \<and> callsAdded (withUpdater (emptyDatabase []))
        ((withUpdater (emptyDatabase [Num 1, Num 1, Num 1, Num 7, Num 1, Num 101]))
          \<lparr>timelineUpdater := Some \<lparr>addValueCalls = [(Num 1, Num 1, Num 1, Num 101)],
                                    submitUpdateJobsCalls = 0\<rparr>\<rparr>)
        [(Num 1, Num 1, Num 1, Num 101)]"
proof -
  have n: "intToString 1 = ''1''"
    by code_simp
  have r: "recordMeasurements cancels10 ''total'' twoDataPoints row1 row1 (Some [0 \<mapsto> totalRow])
      someAvailable (withUpdater (emptyDatabase []))
     = (Inr 1, (withUpdater (emptyDatabase [Num 1, Num 1, Num 1, Num 7, Num 1, Num 101]))
          \<lparr>timelineUpdater := Some \<lparr>addValueCalls = [(Num 1, Num 1, Num 1, Num 101)],
                                    submitUpdateJobsCalls = 0\<rparr>\<rparr>)"
    by (simp add: recordMeasurements_def twoDataPoints_def row1_def totalRow_def someAvailable_def
      recordTuple_def tupleOf_def alreadyRecorded_def jsGe_Num notifyUpdater_def insertBatchN_def
      batchN_def emptyDatabase_def withUpdater_def bindS_def bindE_def catchS_def returnS_def
      throwS_def liftE_def runQuery_def cancels10_def isUniqueViolationError_def elem_def n
      recordMeasurement_def recordMeasurementsFromBatch_def addValue_def
      batched10Loop.simps recordMeasurementsFromBatchLoop.simps)
  have e: "expectedCalls ''total'' row1 row1 (Some [0 \<mapsto> totalRow]) someAvailable
        (measuresOf twoDataPoints) = [(Num 1, Num 1, Num 1, Num 101)]"
    by (simp add: expectedCalls_def expectedCall_def measuresOf_def twoDataPoints_def
        tupleOf_def row1_def totalRow_def bindE_def alreadyRecorded_def jsGe_Num someAvailable_def
        elem_def n)
  from addValue_calls [OF r] e
  have "callsAdded (withUpdater (emptyDatabase []))
        ((withUpdater (emptyDatabase [Num 1, Num 1, Num 1, Num 7, Num 1, Num 101]))
          \<lparr>timelineUpdater := Some \<lparr>addValueCalls = [(Num 1, Num 1, Num 1, Num 101)],
                                    submitUpdateJobsCalls = 0\<rparr>\<rparr>)
        [(Num 1, Num 1, Num 1, Num 101)]"
    by auto
  with r e show ?thesis by (simp only: simp_thms)
qed

text \<open>
  Claim C3 holds for the batch of 50 and for the inserts of single tuples, and fails for
  the batches of 10: the catch clause of the loop over the residual batches handles the
  unique violation only and lets every other error end there. With ten new tuples and a
  database on which the insert of ten rows is cancelled (SQLSTATE 57014, not a unique
  violation), \<open>recordMeasurements\<close> returns normally, reports 0 recorded measurements and
  stores nothing, where the claim has the error abort the request.
\<close>

theorem recordMeasurements_batch10_drops_error:
  "fst (runQuery cancels10 \<lparr>qname = ''insertMeasurement10'', qvalues = []\<rparr> (emptyDatabase []))
     = Inl (DbError ''57014'')
   \<and> \<not> isUniqueViolationError (DbError ''57014'')
   \<and> fst (recordMeasurements cancels10 ''total'' tenDataPoints row1 row1
            (Some [0 \<mapsto> totalRow]) Map.empty (emptyDatabase [])) = Inr 0
   \<and> conn (snd (recordMeasurements cancels10 ''total'' tenDataPoints row1 row1
                  (Some [0 \<mapsto> totalRow]) Map.empty (emptyDatabase []))) = []"
  by (simp add: recordMeasurements_def tenDataPoints_def row1_def totalRow_def
      recordTuple_def tupleOf_def alreadyRecorded_def jsGe_Num notifyUpdater_def insertBatchN_def
      batchN_def emptyDatabase_def bindS_def bindE_def catchS_def returnS_def throwS_def
      liftE_def runQuery_def cancels10_def isUniqueViolationError_def elem_def
      recordMeasurementBatched10_def recordMeasurementsFromBatch_def
      batched10Loop.simps recordMeasurementsFromBatchLoop.simps)

subsection \<open>Completion of an experiment\<close>








lemma hasNumId_not_Undefined: "hasNumId row \<Longrightarrow> row \<noteq> Undefined"
  by (auto simp: hasNumId_def)








end
